theory Spec2Isabelle
  imports Complex_Main "HOL-Library.AList"
begin

section \<open>Python errors\<close>

text \<open>
  Every \<^verbatim>\<open>raise\<close>, failed \<^verbatim>\<open>assert\<close> and failing dictionary or
  array access of \<^verbatim>\<open>tri_mesh_viewer.py\<close> is a value of this type.
  \<open>Exception\<close> carries the message of a plain \<^verbatim>\<open>raise Exception(msg)\<close>.
\<close>

datatype py_error =
    Exception string
  | AssertionError
  | IndexError
  | KeyError string
  | ValueError
  | ZeroDivisionError

section \<open>MaterialLibrary\<close>

text \<open>
  A \<^verbatim>\<open>pythreejs.DataTexture\<close> is a widget; the only attribute the library reads
  is its \<^verbatim>\<open>model_id\<close>, the identifier the widget runtime gives each widget. Two
  texture objects are the same object exactly when their model ids agree.
\<close>

datatype DataTexture = DataTexture (model_id: string)

text \<open>
  A material object (\<^verbatim>\<open>MeshLambertMaterial\<close> or \<^verbatim>\<open>LineBasicMaterial\<close>).
  \<open>mat_id\<close> is the identity of the Python object: the library numbers the
  materials in the order in which it constructs them. The other fields are the
  constructor arguments the library passes; \<open>map_tex\<close> is the attribute
  \<^verbatim>\<open>map\<close> (\<open>None\<close> also when the attribute is missing, as
  \<^verbatim>\<open>_extractMaterialDescriptors\<close> reads it).
\<close>

record Material =
  mat_id :: nat
  isLine :: bool
  vertexColors :: string
  map_tex :: "DataTexture option"
  color :: "string option"
  transparent :: bool
  opacity :: real

text \<open>The keyword arguments built by \<^verbatim>\<open>_colorTexArgs\<close>: each key is optional.\<close>

record colorTexArgs =
  arg_vertexColors :: "string option"
  arg_map :: "DataTexture option"
  arg_color :: "string option"

text \<open>
  The library: the dictionary \<^verbatim>\<open>materials\<close>, the flag \<^verbatim>\<open>isLineMesh\<close>, and
  two observers of the widget runtime: \<open>constructed\<close> counts the material
  objects constructed so far, \<open>closed\<close> lists the materials on which
  \<^verbatim>\<open>close()\<close> was called, oldest first.
\<close>

record MaterialLibrary =
  materials :: "string \<rightharpoonup> Material"
  isLineMesh :: bool
  constructed :: nat
  closed :: "Material list"

definition MaterialLibrary_init :: "bool \<Rightarrow> MaterialLibrary" where
  "MaterialLibrary_init lineMesh =
     \<lparr>materials = Map.empty, isLineMesh = lineMesh, constructed = 0, closed = []\<rparr>"

text \<open>\<^verbatim>\<open>f'{useVertexColors}'\<close> of a Python bool.\<close>

definition str_bool :: "bool \<Rightarrow> string" where
  "str_bool b = (if b then ''True'' else ''False'')"

definition colorTexArgs_of :: "bool \<Rightarrow> DataTexture option \<Rightarrow> string \<Rightarrow> colorTexArgs" where
  "colorTexArgs_of useVertexColors textureMapDataTex solidColor =
     \<lparr>arg_vertexColors = (if useVertexColors then Some ''VertexColors'' else None),
      arg_map = textureMapDataTex,
      arg_color = (if \<not> useVertexColors \<and> textureMapDataTex = None then Some solidColor else None)\<rparr>"

definition mangledMaterialName :: "bool \<Rightarrow> bool \<Rightarrow> DataTexture option \<Rightarrow> string" where
  "mangledMaterialName isGhost useVertexColors textureMapDataTex =
     (let category = (if isGhost then ''ghost'' else ''solid'') in
      case textureMapDataTex of
        None \<Rightarrow> category @ ''_vc'' @ str_bool useVertexColors
      | Some tex \<Rightarrow> ''solid_vc'' @ str_bool useVertexColors @ ''_tex'' @ model_id tex)"

definition extractMaterialDescriptors :: "Material \<Rightarrow> bool \<times> DataTexture option" where
  "extractMaterialDescriptors mat = (vertexColors mat = ''VertexColors'', map_tex mat)"

definition mangledNameForMaterial :: "bool \<Rightarrow> Material \<Rightarrow> string" where
  "mangledNameForMaterial isGhost mat =
     (case extractMaterialDescriptors mat of
        (useVertexColors, textureMapDataTex) \<Rightarrow>
          mangledMaterialName isGhost useVertexColors textureMapDataTex)"

text \<open>
  Constructing a material object from keyword arguments: a key that is absent
  leaves the attribute at the default of the rendering library
  (\<^verbatim>\<open>'NoColors'\<close>, no map, no colour override, opaque). A
  \<^verbatim>\<open>LineBasicMaterial\<close> has no attribute \<^verbatim>\<open>map\<close>: the keyword is not kept, and
  \<^verbatim>\<open>_extractMaterialDescriptors\<close> finds no map on the object.
\<close>

definition new_material :: "nat \<Rightarrow> bool \<Rightarrow> colorTexArgs \<Rightarrow> bool \<Rightarrow> real \<Rightarrow> Material" where
  "new_material i line args isTransparent opac =
     \<lparr>mat_id = i, isLine = line,
      vertexColors = (case arg_vertexColors args of None \<Rightarrow> ''NoColors'' | Some v \<Rightarrow> v),
      map_tex = (if line then None else arg_map args),
      color = arg_color args,
      transparent = isTransparent,
      opacity = opac\<rparr>"

text \<open>
  \<^verbatim>\<open>material(useVertexColors, textureMapDataTex)\<close>: the returned material and
  the library after the call.
\<close>

definition material :: "MaterialLibrary \<Rightarrow> bool \<Rightarrow> DataTexture option \<Rightarrow> Material \<times> MaterialLibrary" where
  "material lib useVertexColors textureMapDataTex =
     (let name = mangledMaterialName False useVertexColors textureMapDataTex in
      case materials lib name of
        Some mat \<Rightarrow> (mat, lib)
      | None \<Rightarrow>
          (let args = colorTexArgs_of useVertexColors textureMapDataTex
                        (if isLineMesh lib then ''black'' else ''lightgray'');
               mat = new_material (constructed lib) (isLineMesh lib) args False 1
           in (mat, lib\<lparr>materials := (materials lib)(name \<mapsto> mat),
                        constructed := Suc (constructed lib)\<rparr>)))"

definition ghostMaterial :: "MaterialLibrary \<Rightarrow> Material \<Rightarrow> Material \<times> MaterialLibrary" where
  "ghostMaterial lib origMaterial =
     (let name = mangledNameForMaterial True origMaterial in
      case materials lib name of
        Some mat \<Rightarrow> (mat, lib)
      | None \<Rightarrow>
          (case extractMaterialDescriptors origMaterial of
             (useVertexColors, textureMapDataTex) \<Rightarrow>
               (let args = colorTexArgs_of useVertexColors textureMapDataTex ''red'';
                    mat = new_material (constructed lib) (isLineMesh lib) args True (1/4)
                in (mat, lib\<lparr>materials := (materials lib)(name \<mapsto> mat),
                             constructed := Suc (constructed lib)\<rparr>))))"

text \<open>
  \<^verbatim>\<open>freeMaterial(material)\<close>: the exception raised, if any, and the library as
  the call leaves it.
\<close>

definition freeMaterial :: "MaterialLibrary \<Rightarrow> Material \<Rightarrow> py_error option \<times> MaterialLibrary" where
  "freeMaterial lib mat =
     (let name = mangledNameForMaterial False mat in
      case materials lib name of
        None \<Rightarrow> (Some (Exception ''Material to be freed is not found (is it a ghost?)''), lib)
      | Some m \<Rightarrow>
          (None, lib\<lparr>materials := (materials lib)(name := None),
                     closed := closed lib @ [m]\<rparr>))"

section \<open>Arrays\<close>

text \<open>
  A float entry of a numpy array: a real number, or \<^verbatim>\<open>nan\<close>, which numpy
  produces (with a warning, not an exception) for \<^verbatim>\<open>0/0\<close>. Rounding is not
  modelled: the finite entries are exact reals.
\<close>

datatype npfloat = Finite real | NaN

text \<open>
  The arrays the viewer handles: float arrays of rows (positions, normals, uv
  coordinates, colours) and one-dimensional \<^verbatim>\<open>uint32\<close> arrays (the ravelled
  index).
\<close>

datatype ndarray = FloatArray "npfloat list list" | UIntArray "nat list"

text \<open>\<^verbatim>\<open>len(a)\<close>: the number of entries along axis 0.\<close>

fun np_len :: "ndarray \<Rightarrow> nat" where
  "np_len (FloatArray rows) = length rows"
| "np_len (UIntArray xs) = length xs"

text \<open>
  Picking the entries \<open>is\<close> of a list, as numpy's integer-array indexing does
  along axis 0: an index beyond the end raises \<^verbatim>\<open>IndexError\<close>.
\<close>

fun gather :: "'a list \<Rightarrow> nat list \<Rightarrow> py_error + 'a list" where
  "gather xs [] = Inr []"
| "gather xs (i # is) =
     (if i < length xs
      then (case gather xs is of Inl e \<Rightarrow> Inl e | Inr ys \<Rightarrow> Inr (xs ! i # ys))
      else Inl IndexError)"

text \<open>\<^verbatim>\<open>a[idxs]\<close>; a float array is not accepted as an index.\<close>

fun np_take :: "ndarray \<Rightarrow> ndarray \<Rightarrow> py_error + ndarray" where
  "np_take a (FloatArray js) = Inl IndexError"
| "np_take (FloatArray rows) (UIntArray is) =
     (case gather rows is of Inl e \<Rightarrow> Inl e | Inr ys \<Rightarrow> Inr (FloatArray ys))"
| "np_take (UIntArray xs) (UIntArray is) =
     (case gather xs is of Inl e \<Rightarrow> Inl e | Inr ys \<Rightarrow> Inr (UIntArray ys))"

text \<open>\<^verbatim>\<open>np.repeat(a, n, axis=0)\<close>: each entry \<open>n\<close> times in a row.\<close>

definition repeat_each :: "nat \<Rightarrow> 'a list \<Rightarrow> 'a list" where
  "repeat_each n xs = concat (map (replicate n) xs)"

fun np_repeat :: "ndarray \<Rightarrow> nat \<Rightarrow> ndarray" where
  "np_repeat (FloatArray rows) n = FloatArray (repeat_each n rows)"
| "np_repeat (UIntArray xs) n = UIntArray (repeat_each n xs)"

definition np_arange :: "nat \<Rightarrow> ndarray" where
  "np_arange n = UIntArray [0..<n]"

section \<open>replicateAttributesPerTriCorner\<close>

text \<open>
  A Python dictionary with string keys, in insertion order: an association
  list with distinct keys. \<open>map_of\<close> looks a key up, \<open>AList.update\<close> assigns
  (in place for a present key, at the end for a new one), \<open>AList.delete\<close> pops.
\<close>

type_synonym 'v pydict = "(string \<times> 'v) list"

text \<open>
  The loop \<^verbatim>\<open>for key in attr\<close>, over the keys still to visit. The result is the
  exception raised, if any, and the dictionary as the loop leaves it (it is
  updated in place).
\<close>

fun replicate_keys :: "ndarray \<Rightarrow> bool \<Rightarrow> string list \<Rightarrow> ndarray pydict \<Rightarrow> py_error option \<times> ndarray pydict" where
  "replicate_keys idxs perTriColor [] attr = (None, attr)"
| "replicate_keys idxs perTriColor (key # keys) attr =
     (case map_of attr key of
        None \<Rightarrow> (Some (KeyError key), attr)
      | Some a \<Rightarrow>
          (if perTriColor \<and> key = ''color''
           then replicate_keys idxs perTriColor keys (AList.update ''color'' (np_repeat a 3) attr)
           else (case np_take a idxs of
                   Inl e \<Rightarrow> (Some e, attr)
                 | Inr b \<Rightarrow> replicate_keys idxs perTriColor keys (AList.update key b attr))))"

definition replicateAttributesPerTriCorner :: "ndarray pydict \<Rightarrow> bool \<Rightarrow> py_error option \<times> ndarray pydict" where
  "replicateAttributesPerTriCorner attr perTriColor =
     (case map_of attr ''index'' of
        None \<Rightarrow> (Some (KeyError ''index''), attr)
      | Some idxs \<Rightarrow>
          (case replicate_keys idxs perTriColor (map fst attr) attr of
             (Some e, attr') \<Rightarrow> (Some e, attr')
           | (None, attr') \<Rightarrow> (None, AList.update ''index'' (np_arange (np_len idxs)) attr')))"

section \<open>TextureMap\<close>

text \<open>
  An RGBA image of shape \<open>(h, w, 4)\<close>: \<open>h\<close> rows of \<open>w\<close> pixels, a pixel being
  its four channel values. The shape is kept beside the rows, so that an image
  without rows still has a width.
\<close>

record image =
  img_h :: nat
  img_w :: nat
  img_rows :: "nat list list list"

text \<open>
  \<^verbatim>\<open>int(np.exp2(np.ceil(np.log2(s))))\<close> over the reals. numpy gives
  \<^verbatim>\<open>log2(0) = -inf\<close>, whose ceiling is \<^verbatim>\<open>-inf\<close> and whose \<^verbatim>\<open>exp2\<close> is \<open>0\<close>.
\<close>

definition exp2_ceil_log2 :: "nat \<Rightarrow> nat" where
  "exp2_ceil_log2 s = (if s = 0 then 0 else nat \<lfloor>2 powr real_of_int \<lceil>log 2 (real s)\<rceil>\<rfloor>)"

text \<open>
  \<^verbatim>\<open>np.pad(tex, [(s - h, 0), (0, s - w), (0, 0)], 'constant', constant_values=128)\<close>:
  \<open>s - h\<close> rows before the first row, \<open>s - w\<close> pixels after the last pixel of
  each row.
\<close>

definition pad_pixel :: "nat list" where
  "pad_pixel = [128, 128, 128, 128]"

definition np_pad :: "image \<Rightarrow> nat \<Rightarrow> image" where
  "np_pad tex s =
     \<lparr>img_h = (s - img_h tex) + img_h tex,
      img_w = img_w tex + (s - img_w tex),
      img_rows = replicate (s - img_h tex) (replicate (img_w tex + (s - img_w tex)) pad_pixel)
                 @ map (\<lambda>row. row @ replicate (s - img_w tex) pad_pixel) (img_rows tex)\<rparr>"

text \<open>
  The normalisation of the uv rows: subtract the column minima, then divide
  by the column maxima of the result. A zero maximum means a column of zeros,
  and \<^verbatim>\<open>0/0\<close> is \<^verbatim>\<open>nan\<close>. The minimum of an empty array raises.
\<close>

definition np_div :: "real \<Rightarrow> real \<Rightarrow> npfloat" where
  "np_div x d = (if d = 0 then NaN else Finite (x / d))"

definition normalize_uv :: "(real \<times> real) list \<Rightarrow> py_error + (npfloat \<times> npfloat) list" where
  "normalize_uv uv =
     (if uv = [] then Inl ValueError
      else let mu = Min (set (map fst uv)); mv = Min (set (map snd uv));
               shifted = map (\<lambda>(x, y). (x - mu, y - mv)) uv;
               du = Max (set (map fst shifted)); dv = Max (set (map snd shifted))
           in Inr (map (\<lambda>(x, y). (np_div x du, np_div y dv)) shifted))"

fun np_mul :: "npfloat \<Rightarrow> real \<Rightarrow> npfloat" where
  "np_mul (Finite x) c = Finite (x * c)"
| "np_mul NaN c = NaN"

definition scale_uv :: "real \<Rightarrow> real \<Rightarrow> npfloat \<times> npfloat \<Rightarrow> npfloat \<times> npfloat" where
  "scale_uv cu cv p = (np_mul (fst p) cu, np_mul (snd p) cv)"

text \<open>
  The object \<^verbatim>\<open>TextureMap.__init__\<close> builds: the stored uv rows, the reference
  to the \<^verbatim>\<open>DataTexture\<close> widget, and the settings of that widget (its padded
  data and the flags set after construction).
\<close>

record TextureMap =
  uv :: "(npfloat \<times> npfloat) list"
  dataTex :: DataTexture
  dataTex_data :: image
  dataTex_wrapS :: string
  dataTex_magFilter :: string
  dataTex_minFilter :: string
  dataTex_generateMipmaps :: bool
  dataTex_flipY :: bool

text \<open>The side of the padded square.\<close>

definition padded_side :: "image \<Rightarrow> bool \<Rightarrow> nat" where
  "padded_side tex powerOfTwo =
     (let s = max (img_w tex) (img_h tex) in if powerOfTwo then exp2_ceil_log2 s else s)"

text \<open>
  \<^verbatim>\<open>TextureMap(uv, tex, normalizeUV, powerOfTwo)\<close>. \<open>widget_id\<close> is the model id
  the widget runtime gives the new \<^verbatim>\<open>DataTexture\<close>. \<^verbatim>\<open>float(w) / s\<close> divides
  Python numbers and raises for \<open>s = 0\<close>.
\<close>

definition TextureMap_init :: "string \<Rightarrow> (real \<times> real) list \<Rightarrow> image \<Rightarrow> bool \<Rightarrow> bool \<Rightarrow> py_error + TextureMap" where
  "TextureMap_init widget_id uv_in tex normalizeUV powerOfTwo =
     (case (if normalizeUV then normalize_uv uv_in
            else Inr (map (\<lambda>(x, y). (Finite x, Finite y)) uv_in)) of
        Inl e \<Rightarrow> Inl e
      | Inr uv0 \<Rightarrow>
          (let h = img_h tex; w = img_w tex;
               s = padded_side tex powerOfTwo;
               padded = np_pad tex s
           in if s = 0 then Inl ZeroDivisionError
              else Inr \<lparr>uv = map (scale_uv (real w / real s) (real h / real s)) uv0,
                        dataTex = DataTexture widget_id,
                        dataTex_data = padded,
                        dataTex_wrapS = ''ClampToEdgeWrapping'',
                        dataTex_magFilter = ''LinearFilter'',
                        dataTex_minFilter = ''LinearMipMapLinearFilter'',
                        dataTex_generateMipmaps = True,
                        dataTex_flipY = True\<rparr>))"

section \<open>Scalar and vector fields\<close>

datatype DomainType = PER_VTX | PER_TRI

text \<open>
  Modelled from the spec: \<^verbatim>\<open>vis.fields.ScalarField\<close>, which is imported and not
  part of the sources. A scalar field is per vertex or per face; \<open>sf_colors\<close> is
  the array \<^verbatim>\<open>colors()\<close> returns, one row per value.
\<close>

record ScalarField =
  sf_domainType :: DomainType
  sf_colors :: "npfloat list list"

text \<open>
  Modelled from the spec: \<^verbatim>\<open>vis.fields.VectorField\<close>. \<open>vf_vectors\<close> has one row
  per vector, \<open>vf_arrowColors\<close> is the RGBA colour array the field gives its
  arrow glyphs.
\<close>

record VectorField =
  vf_domainType :: DomainType
  vf_vectors :: "npfloat list list"
  vf_arrowColors :: "npfloat list list"

text \<open>
  Modelled from the spec: \<^verbatim>\<open>validateSize(vertexCount, faceCount)\<close> of both field
  classes, a size-mismatch failure signalled at once when the field's element
  count disagrees with the vertex count (per-vertex field) or the face count
  (per-face field).
\<close>

definition validateSize :: "DomainType \<Rightarrow> nat \<Rightarrow> nat \<Rightarrow> nat \<Rightarrow> py_error option" where
  "validateSize domainType n vertexCount faceCount =
     (if n = (case domainType of PER_VTX \<Rightarrow> vertexCount | PER_TRI \<Rightarrow> faceCount) then None
      else Some (Exception ''size mismatch''))"

section \<open>ViewerBase\<close>

type_synonym vec3 = "real \<times> real \<times> real"

text \<open>
  A mesh object (\<^verbatim>\<open>Mesh\<close>, \<^verbatim>\<open>LineSegments\<close>, \<^verbatim>\<open>Points\<close>): its identity, the
  identity of its \<^verbatim>\<open>BufferGeometry\<close>, and its material. Geometries are shared
  (the wireframe and points meshes use the geometry of the current mesh), so a
  mesh holds a reference, and the attribute dictionary of every geometry lives
  in the viewer's \<open>geom_attributes\<close>, keyed by geometry identity. The
  dictionary maps a key to the identity of a \<^verbatim>\<open>BufferAttribute\<close>, whose array
  is in \<open>buffer_array\<close>.
\<close>

record Mesh =
  mesh_id :: nat
  geometry :: nat
  mesh_material :: Material

text \<open>What \<^verbatim>\<open>__cleanMeshes\<close> asks of the widget runtime, one entry per call.\<close>

datatype three_event =
    Dispose_geometry nat
  | Close_attribute nat
  | Close_geometry nat
  | Close_mesh nat

text \<open>
  The viewer. Beside the attributes of the Python object there are the object
  store (\<open>geom_attributes\<close>, \<open>buffer_array\<close>, and \<open>next_id\<close>, the identity the
  next constructed buffer, geometry or mesh gets) and three observers:
  \<open>allocated\<close> lists the \<^verbatim>\<open>BufferAttribute\<close> objects the viewer constructed
  (with the key each was constructed for), \<open>closeLog\<close> the disposal calls,
  \<open>cam_lookAt\<close> the \<^verbatim>\<open>lookAt\<close> calls sent to the camera. The group \<open>meshes\<close>
  is the list of the identities of its children; the ghost group holds the
  ghost meshes themselves, which nothing else refers to. The scale and
  position of the \<open>objects\<close> group are floating-point functions of the vertex
  array; \<open>modelMatrixVertices\<close> is the vertex array they were last computed
  from.
\<close>

record ViewerBase =
  cam_position :: vec3
  cam_up :: vec3
  controls_target :: vec3
  cam_lookAt :: "vec3 list"
  controls_shaderMaterial :: "Material option"
  avoidRedrawFlicker :: bool
  renderingPaused :: bool
  modelMatrixVertices :: "npfloat list list option"
  meshes :: "nat list"
  ghostMeshes :: "Mesh list"
  materialLibrary :: MaterialLibrary
  bufferAttributeStash :: "nat pydict"
  currMesh :: "Mesh option"
  wireframeMesh :: "Mesh option"
  pointsMesh :: "Mesh option"
  vectorFieldMesh :: "Mesh option"
  scalarField :: "ScalarField option"
  vectorField :: "VectorField option"
  arrowMaterial :: "Material option"
  geom_attributes :: "nat \<Rightarrow> nat pydict"
  buffer_array :: "nat \<Rightarrow> ndarray"
  next_id :: nat
  allocated :: "(string \<times> nat) list"
  closeLog :: "three_event list"

text \<open>The arguments of one \<^verbatim>\<open>setGeometry\<close> call.\<close>

record geometry_args =
  vertices :: "npfloat list list"
  idxs :: "nat list list"
  normals :: "npfloat list list"
  preserveExisting :: bool
  updateModelMatrix :: bool
  textureMap :: "TextureMap option"
  scalarField_arg :: "ScalarField option"
  vectorField_arg :: "VectorField option"

text \<open>Running a step only when the steps before it raised nothing.\<close>

definition and_then :: "py_error option \<times> 's \<Rightarrow> ('s \<Rightarrow> py_error option \<times> 's) \<Rightarrow> py_error option \<times> 's" where
  "and_then r f = (case r of (Some e, s) \<Rightarrow> (Some e, s) | (None, s) \<Rightarrow> f s)"

subsection \<open>Camera parameters\<close>

definition getCameraParams :: "ViewerBase \<Rightarrow> vec3 \<times> vec3 \<times> vec3" where
  "getCameraParams v = (cam_position v, cam_up v, controls_target v)"

definition setCameraParams :: "ViewerBase \<Rightarrow> vec3 \<times> vec3 \<times> vec3 \<Rightarrow> ViewerBase" where
  "setCameraParams v params =
     (case params of (p, u, t) \<Rightarrow>
        (let v1 = v\<lparr>cam_position := p, cam_up := u, controls_target := t\<rparr>
         in v1\<lparr>cam_lookAt := cam_lookAt v1 @ [controls_target v1]\<rparr>))"

subsection \<open>Groups\<close>

text \<open>
  \<^verbatim>\<open>Group.add\<close> and \<^verbatim>\<open>Group.remove\<close> of the rendering library
  (\<^verbatim>\<open>pythreejs.Object3D\<close>), on the list of the children of a group. \<^verbatim>\<open>add\<close>
  appends the child and does not look whether it is a child already;
  \<^verbatim>\<open>remove\<close> takes the first occurrence of the child out of the list and raises
  \<^verbatim>\<open>ValueError\<close> when the child is not in it. Children are compared by identity.
\<close>

definition group_add :: "nat \<Rightarrow> nat list \<Rightarrow> nat list" where
  "group_add m children = children @ [m]"

definition group_remove :: "nat \<Rightarrow> nat list \<Rightarrow> py_error + nat list" where
  "group_remove m children =
     (if m \<in> set children then Inr (remove1 m children) else Inl ValueError)"

text \<open>The same for the ghost group, whose children are kept as meshes.\<close>

definition ghost_add :: "Mesh \<Rightarrow> Mesh list \<Rightarrow> Mesh list" where
  "ghost_add m children = children @ [m]"

fun remove_child :: "nat \<Rightarrow> Mesh list \<Rightarrow> Mesh list" where
  "remove_child i [] = []"
| "remove_child i (c # cs) = (if mesh_id c = i then cs else c # remove_child i cs)"

definition ghost_remove :: "Mesh \<Rightarrow> Mesh list \<Rightarrow> py_error + Mesh list" where
  "ghost_remove m children =
     (if mesh_id m \<in> set (map mesh_id children) then Inr (remove_child (mesh_id m) children)
      else Inl ValueError)"

text \<open>\<^verbatim>\<open>oldMesh != other\<close> for an attribute \<open>other\<close> that may be \<^verbatim>\<open>None\<close>.\<close>

definition is_mesh :: "Mesh \<Rightarrow> Mesh option \<Rightarrow> bool" where
  "is_mesh m other = (case other of None \<Rightarrow> False | Some w \<Rightarrow> mesh_id w = mesh_id m)"

subsection \<open>Disposal of a mesh group\<close>

text \<open>
  The body of the loop of \<^verbatim>\<open>__cleanMeshes\<close>, on the ghost group: the mesh leaves
  the group; unless it is the wireframe or the points mesh, its geometry is
  disposed, every attribute of the geometry closed, and the geometry closed;
  then the mesh is closed.
\<close>

definition cleanMesh :: "Mesh \<Rightarrow> ViewerBase \<Rightarrow> py_error option \<times> ViewerBase" where
  "cleanMesh oldMesh v =
     (case ghost_remove oldMesh (ghostMeshes v) of
        Inl e \<Rightarrow> (Some e, v)
      | Inr children \<Rightarrow>
          (let v1 = v\<lparr>ghostMeshes := children\<rparr>;
               g = geometry oldMesh;
               v2 = (if \<not> is_mesh oldMesh (wireframeMesh v1) \<and> \<not> is_mesh oldMesh (pointsMesh v1)
                     then v1\<lparr>closeLog := closeLog v1 @ [Dispose_geometry g]
                                 @ map (\<lambda>(k, b). Close_attribute b) (geom_attributes v1 g)
                                 @ [Close_geometry g]\<rparr>
                     else v1)
           in (None, v2\<lparr>closeLog := closeLog v2 @ [Close_mesh (mesh_id oldMesh)]\<rparr>)))"

text \<open>The loop goes over the children the group had when the loop began.\<close>

fun cleanMeshes_loop :: "Mesh list \<Rightarrow> ViewerBase \<Rightarrow> py_error option \<times> ViewerBase" where
  "cleanMeshes_loop [] v = (None, v)"
| "cleanMeshes_loop (oldMesh # rest) v = and_then (cleanMesh oldMesh v) (cleanMeshes_loop rest)"

definition cleanMeshes :: "ViewerBase \<Rightarrow> py_error option \<times> ViewerBase" where
  "cleanMeshes v = cleanMeshes_loop (ghostMeshes v) v"

subsection \<open>The raw attributes of the new mesh\<close>

text \<open>
  Lines 208 to 227 of \<^verbatim>\<open>setGeometry\<close>: the dictionary \<^verbatim>\<open>attrRaw\<close> and the flag
  \<^verbatim>\<open>useVertexColors\<close>. The scalar field is taken as a \<^verbatim>\<open>ScalarField\<close> already.
\<close>

definition rawAttributes :: "geometry_args \<Rightarrow> py_error + (ndarray pydict \<times> bool)" where
  "rawAttributes a =
     (let attrRaw0 = [(''position'', FloatArray (vertices a)),
                      (''index'', UIntArray (concat (idxs a))),
                      (''normal'', FloatArray (normals a))];
          attrRaw1 = (case textureMap a of
                        None \<Rightarrow> attrRaw0
                      | Some tm \<Rightarrow>
                          AList.update ''uv'' (FloatArray (map (\<lambda>(x, y). [x, y]) (uv tm))) attrRaw0)
      in case scalarField_arg a of
           None \<Rightarrow> Inr (attrRaw1, False)
         | Some sf \<Rightarrow>
             (case validateSize (sf_domainType sf) (length (sf_colors sf))
                     (length (vertices a)) (length (idxs a)) of
                Some e \<Rightarrow> Inl e
              | None \<Rightarrow>
                  (let attrRaw2 = AList.update ''color'' (FloatArray (sf_colors sf)) attrRaw1
                   in if sf_domainType sf = PER_TRI
                      then (case replicateAttributesPerTriCorner attrRaw2 True of
                              (Some e, attrRaw3) \<Rightarrow> Inl e
                            | (None, attrRaw3) \<Rightarrow> Inr (attrRaw3, True))
                      else Inr (attrRaw2, True))))"

subsection \<open>Buffer attributes\<close>

definition stashableKeys :: "string list" where
  "stashableKeys = [''index'', ''color'', ''uv'']"

text \<open>\<^verbatim>\<open>pythreejs.BufferAttribute(array)\<close>: the new object gets the next identity.\<close>

definition new_BufferAttribute :: "string \<Rightarrow> ndarray \<Rightarrow> ViewerBase \<Rightarrow> ViewerBase" where
  "new_BufferAttribute key arr v =
     v\<lparr>buffer_array := (buffer_array v)(next_id v := arr),
       allocated := allocated v @ [(key, next_id v)],
       next_id := Suc (next_id v)\<rparr>"

text \<open>
  The local function \<^verbatim>\<open>allocateUpdateOrStashBufferAttribute(attr, key)\<close>. It
  reads \<^verbatim>\<open>attrRaw\<close> and changes the stash, the buffers and the dictionary
  \<^verbatim>\<open>attr\<close> it is given; the result is the exception raised, if any, the viewer
  and \<^verbatim>\<open>attr\<close>.
\<close>

definition allocateUpdateOrStashBufferAttribute ::
  "ndarray pydict \<Rightarrow> string \<Rightarrow> ViewerBase \<Rightarrow> nat pydict \<Rightarrow> py_error option \<times> ViewerBase \<times> nat pydict" where
  "allocateUpdateOrStashBufferAttribute attrRaw key v attr =
     (if \<not> (map_of attr key = None \<or> map_of (bufferAttributeStash v) key = None)
      then (Some AssertionError, v, attr)
      else case map_of attrRaw key of
        Some arr \<Rightarrow>
          (let (v1, attr1) =
                 (case map_of (bufferAttributeStash v) key of
                    Some b \<Rightarrow> (v\<lparr>bufferAttributeStash := AList.delete key (bufferAttributeStash v)\<rparr>,
                               AList.update key b attr)
                  | None \<Rightarrow> (v, attr))
           in case map_of attr1 key of
                Some b \<Rightarrow> (None, v1\<lparr>buffer_array := (buffer_array v1)(b := arr)\<rparr>, attr1)
              | None \<Rightarrow> (None, new_BufferAttribute key arr v1, AList.update key (next_id v1) attr1))
      | None \<Rightarrow>
          (case map_of attr key of
             Some b \<Rightarrow> (None, v\<lparr>bufferAttributeStash := AList.update key b (bufferAttributeStash v)\<rparr>,
                        AList.delete key attr)
           | None \<Rightarrow> (None, v, attr)))"

text \<open>
  Lines 285 to 289, for a viewer without a current mesh: each stashable key of
  \<^verbatim>\<open>attrRaw\<close> is handled and popped from \<^verbatim>\<open>attrRaw\<close>.
\<close>

fun stash_present_keys ::
  "string list \<Rightarrow> ndarray pydict \<Rightarrow> ViewerBase \<Rightarrow> nat pydict
     \<Rightarrow> py_error option \<times> ViewerBase \<times> nat pydict \<times> ndarray pydict" where
  "stash_present_keys [] attrRaw v attr = (None, v, attr, attrRaw)"
| "stash_present_keys (key # keys) attrRaw v attr =
     (if key \<in> set stashableKeys
      then (case allocateUpdateOrStashBufferAttribute attrRaw key v attr of
              (Some e, v', attr') \<Rightarrow> (Some e, v', attr', attrRaw)
            | (None, v', attr') \<Rightarrow> stash_present_keys keys (AList.delete key attrRaw) v' attr')
      else stash_present_keys keys attrRaw v attr)"

text \<open>Line 290: a new buffer for every entry left in \<^verbatim>\<open>attrRaw\<close>.\<close>

fun allocate_remaining :: "ndarray pydict \<Rightarrow> ViewerBase \<Rightarrow> nat pydict \<Rightarrow> ViewerBase \<times> nat pydict" where
  "allocate_remaining [] v attr = (v, attr)"
| "allocate_remaining ((k, arr) # rest) v attr =
     allocate_remaining rest (new_BufferAttribute k arr v) (AList.update k (next_id v) attr)"

text \<open>Lines 302 and 303, for a viewer with a current mesh.\<close>

fun update_stashable ::
  "string list \<Rightarrow> ndarray pydict \<Rightarrow> ViewerBase \<Rightarrow> nat pydict \<Rightarrow> py_error option \<times> ViewerBase \<times> nat pydict" where
  "update_stashable [] attrRaw v attr = (None, v, attr)"
| "update_stashable (key # keys) attrRaw v attr =
     (case allocateUpdateOrStashBufferAttribute attrRaw key v attr of
        (Some e, v', attr') \<Rightarrow> (Some e, v', attr')
      | (None, v', attr') \<Rightarrow> update_stashable keys attrRaw v' attr')"

text \<open>\<^verbatim>\<open>attr[key].array = attrRaw[key]\<close> for a key both dictionaries must have.\<close>

definition assign_array :: "ndarray pydict \<Rightarrow> string \<Rightarrow> nat pydict \<Rightarrow> ViewerBase \<Rightarrow> py_error option \<times> ViewerBase" where
  "assign_array attrRaw key attr v =
     (case map_of attr key of
        None \<Rightarrow> (Some (KeyError key), v)
      | Some b \<Rightarrow>
          (case map_of attrRaw key of
             None \<Rightarrow> (Some (KeyError key), v)
           | Some arr \<Rightarrow> (None, v\<lparr>buffer_array := (buffer_array v)(b := arr)\<rparr>)))"

text \<open>Lines 282 to 306: the new current mesh, or the current mesh updated.\<close>

definition buildOrUpdateMesh :: "ndarray pydict \<Rightarrow> Material \<Rightarrow> ViewerBase \<Rightarrow> py_error option \<times> ViewerBase" where
  "buildOrUpdateMesh attrRaw mat v =
     (case currMesh v of
        None \<Rightarrow>
          (case stash_present_keys (map fst attrRaw) attrRaw v [] of
             (Some e, v1, attr1, attrRaw1) \<Rightarrow> (Some e, v1)
           | (None, v1, attr1, attrRaw1) \<Rightarrow>
               (case allocate_remaining attrRaw1 v1 attr1 of
                  (v2, attr2) \<Rightarrow>
                    (let geom = next_id v2;
                         m = \<lparr>mesh_id = Suc geom, geometry = geom, mesh_material = mat\<rparr>
                     in (None, v2\<lparr>geom_attributes := (geom_attributes v2)(geom := attr2),
                                  next_id := Suc (Suc geom),
                                  currMesh := Some m,
                                  meshes := group_add (mesh_id m) (meshes v2)\<rparr>))))
      | Some cm \<Rightarrow>
          (let attr = geom_attributes v (geometry cm)
           in and_then (assign_array attrRaw ''position'' attr v) (\<lambda>v1.
              and_then (assign_array attrRaw ''normal'' attr v1) (\<lambda>v2.
                case update_stashable stashableKeys attrRaw v2 attr of
                  (Some e, v3, attr3) \<Rightarrow> (Some e, v3)
                | (None, v3, attr3) \<Rightarrow>
                    (None, v3\<lparr>geom_attributes := (geom_attributes v3)(geometry cm := attr3),
                              currMesh := Some (cm\<lparr>mesh_material := mat\<rparr>)\<rparr>)))))"

text \<open>Lines 310 to 313: the wireframe and points meshes follow the current geometry.\<close>

definition repointOverlays :: "ViewerBase \<Rightarrow> ViewerBase" where
  "repointOverlays v =
     (case currMesh v of
        None \<Rightarrow> v
      | Some cm \<Rightarrow>
          v\<lparr>wireframeMesh := map_option (\<lambda>w. w\<lparr>geometry := geometry cm\<rparr>) (wireframeMesh v),
            pointsMesh := map_option (\<lambda>w. w\<lparr>geometry := geometry cm\<rparr>) (pointsMesh v)\<rparr>)"

subsection \<open>Ghosts\<close>

text \<open>\<^verbatim>\<open>colors[:, 3] = 0.25\<close>: every row needs a fourth column.\<close>

fun set_alpha :: "ndarray \<Rightarrow> py_error + ndarray" where
  "set_alpha (FloatArray rows) =
     (if list_all (\<lambda>r. 3 < length r) rows
      then Inr (FloatArray (map (\<lambda>r. r[3 := Finite (1/4)]) rows))
      else Inl IndexError)"
| "set_alpha (UIntArray xs) = Inl IndexError"

text \<open>
  \<^verbatim>\<open>oldVFMesh.material.transparent = True\<close> changes the material object, which
  the viewer's \<^verbatim>\<open>arrowMaterial\<close> and the controls may refer to as well.
\<close>

definition make_transparent :: "nat \<Rightarrow> Material \<Rightarrow> Material" where
  "make_transparent i m = (if mat_id m = i then m\<lparr>transparent := True\<rparr> else m)"

text \<open>Lines 239 to 246: the displayed vector field mesh becomes a ghost.\<close>

definition ghostVectorField :: "Mesh \<Rightarrow> ViewerBase \<Rightarrow> py_error option \<times> ViewerBase" where
  "ghostVectorField oldVFMesh0 v =
     (let i = mat_id (mesh_material oldVFMesh0);
          oldVFMesh = oldVFMesh0\<lparr>mesh_material := make_transparent i (mesh_material oldVFMesh0)\<rparr>;
          v1 = v\<lparr>vectorFieldMesh := None,
                 arrowMaterial := map_option (make_transparent i) (arrowMaterial v),
                 controls_shaderMaterial := map_option (make_transparent i) (controls_shaderMaterial v)\<rparr>
      in case map_of (geom_attributes v1 (geometry oldVFMesh)) ''arrowColor'' of
           None \<Rightarrow> (Some (KeyError ''arrowColor''), v1)
         | Some b \<Rightarrow>
             (case set_alpha (buffer_array v1 b) of
                Inl e \<Rightarrow> (Some e, v1)
              | Inr colors \<Rightarrow>
                  (let v2 = v1\<lparr>buffer_array := (buffer_array v1)(b := colors)\<rparr>
                   in case group_remove (mesh_id oldVFMesh) (meshes v2) of
                        Inl e \<Rightarrow> (Some e, v2)
                      | Inr children \<Rightarrow>
                          (None, v2\<lparr>meshes := children,
                                    ghostMeshes := ghost_add oldVFMesh (ghostMeshes v2)\<rparr>))))"

text \<open>
  Lines 229 to 248: with \<^verbatim>\<open>preserveExisting\<close> and a current mesh, the current
  mesh (and a displayed vector field mesh) becomes a ghost; otherwise the ghost
  group is cleaned.
\<close>

definition ghostOrClean :: "geometry_args \<Rightarrow> ViewerBase \<Rightarrow> py_error option \<times> ViewerBase" where
  "ghostOrClean a v =
     (case (if preserveExisting a then currMesh v else None) of
        Some oldMesh \<Rightarrow>
          (case ghostMaterial (materialLibrary v) (mesh_material oldMesh) of
             (gm, lib) \<Rightarrow>
               (let v0 = v\<lparr>currMesh := None, materialLibrary := lib\<rparr>
                in case group_remove (mesh_id oldMesh) (meshes v0) of
                     Inl e \<Rightarrow> (Some e, v0)
                   | Inr children \<Rightarrow>
                       (let v1 = v0\<lparr>meshes := children,
                                    ghostMeshes := ghost_add (oldMesh\<lparr>mesh_material := gm\<rparr>)
                                                     (ghostMeshes v0)\<rparr>
                        in case vectorFieldMesh v1 of
                             Some oldVFMesh \<Rightarrow>
                               (if mesh_id oldVFMesh \<in> set (meshes v1)
                                then ghostVectorField oldVFMesh v1
                                else (None, v1))
                           | None \<Rightarrow> (None, v1))))
      | None \<Rightarrow> cleanMeshes v)"

subsection \<open>The vector field mesh\<close>

text \<open>
  Modelled from the spec: \<^verbatim>\<open>VectorField.getArrows\<close> of \<^verbatim>\<open>vis.fields\<close>, which
  builds or updates the glyph geometry. An existing mesh is kept and its arrow
  colours are replaced; otherwise a buffer for the arrow colours, a geometry
  holding it and a mesh are constructed, with the material given or, without
  one, a new shader material.
\<close>

definition getArrows :: "VectorField \<Rightarrow> Material option \<Rightarrow> Mesh option \<Rightarrow> ViewerBase \<Rightarrow> Mesh \<times> ViewerBase" where
  "getArrows vf mat existingMesh v =
     (case existingMesh of
        Some m \<Rightarrow>
          (case map_of (geom_attributes v (geometry m)) ''arrowColor'' of
             Some b \<Rightarrow> (m, v\<lparr>buffer_array := (buffer_array v)(b := FloatArray (vf_arrowColors vf))\<rparr>)
           | None \<Rightarrow> (m, v))
      | None \<Rightarrow>
          (let b = next_id v; g = Suc b; i = Suc g;
               shader = (case mat of
                           Some sm \<Rightarrow> sm
                         | None \<Rightarrow> \<lparr>mat_id = Suc i, isLine = False, vertexColors = ''NoColors'',
                                    map_tex = None, color = None, transparent = False, opacity = 1\<rparr>)
           in (\<lparr>mesh_id = i, geometry = g, mesh_material = shader\<rparr>,
               v\<lparr>buffer_array := (buffer_array v)(b := FloatArray (vf_arrowColors vf)),
                 geom_attributes := (geom_attributes v)(g := [(''arrowColor'', b)]),
                 next_id := Suc (Suc i)\<rparr>)))"

text \<open>
  Lines 318 to 336. The vector field is taken as a \<^verbatim>\<open>VectorField\<close> already;
  the shader uniforms are floating-point values and are left out.
\<close>

definition vectorFieldStep :: "geometry_args \<Rightarrow> ViewerBase \<Rightarrow> py_error option \<times> ViewerBase" where
  "vectorFieldStep a v =
     (case vectorField v of
        Some vf \<Rightarrow>
          (case validateSize (vf_domainType vf) (length (vf_vectors vf))
                  (length (vertices a)) (length (idxs a)) of
             Some e \<Rightarrow> (Some e, v)
           | None \<Rightarrow>
               (case getArrows vf (arrowMaterial v) (vectorFieldMesh v) v of
                  (m, v1) \<Rightarrow>
                    (let v2 = v1\<lparr>vectorFieldMesh := Some m,
                                arrowMaterial := Some (mesh_material m),
                                controls_shaderMaterial := Some (mesh_material m)\<rparr>
                     in (None, if mesh_id m \<notin> set (meshes v2)
                               then v2\<lparr>meshes := group_add (mesh_id m) (meshes v2)\<rparr>
                               else v2))))
      | None \<Rightarrow>
          (case vectorFieldMesh v of
             Some m \<Rightarrow>
               (if mesh_id m \<in> set (meshes v)
                then (case group_remove (mesh_id m) (meshes v) of
                        Inl e \<Rightarrow> (Some e, v)
                      | Inr children \<Rightarrow> (None, v\<lparr>meshes := children\<rparr>))
                else (None, v))
           | None \<Rightarrow> (None, v)))"

subsection \<open>setGeometry\<close>

text \<open>
  Lines 198 to 203: the maximum of an empty array raises; otherwise the scale
  and position of the \<open>objects\<close> group are recomputed from the vertices.
\<close>

definition modelMatrixStep :: "geometry_args \<Rightarrow> ViewerBase \<Rightarrow> py_error option \<times> ViewerBase" where
  "modelMatrixStep a v =
     (if updateModelMatrix a
      then (if vertices a = [] then (Some ValueError, v)
            else (None, v\<lparr>modelMatrixVertices := Some (vertices a)\<rparr>))
      else (None, v))"

text \<open>
  \<^verbatim>\<open>setGeometry\<close>: the exception raised, if any, and the viewer as the call
  leaves it.
\<close>

definition setGeometry :: "ViewerBase \<Rightarrow> geometry_args \<Rightarrow> py_error option \<times> ViewerBase" where
  "setGeometry v a =
     and_then (modelMatrixStep a (v\<lparr>scalarField := scalarField_arg a,
                                    vectorField := vectorField_arg a\<rparr>)) (\<lambda>v1.
       case rawAttributes a of
         Inl e \<Rightarrow> (Some e, v1)
       | Inr (attrRaw, useVertexColors) \<Rightarrow>
           and_then (ghostOrClean a v1) (\<lambda>v2.
             case material (materialLibrary v2) useVertexColors (map_option dataTex (textureMap a)) of
               (mat, lib) \<Rightarrow>
                 (let v3 = v2\<lparr>materialLibrary := lib\<rparr>;
                      v4 = (if avoidRedrawFlicker v3 then v3\<lparr>renderingPaused := True\<rparr> else v3)
                  in and_then (buildOrUpdateMesh attrRaw mat v4) (\<lambda>v5.
                     and_then (vectorFieldStep a (repointOverlays v5)) (\<lambda>v6.
                       (None, if avoidRedrawFlicker v6 then v6\<lparr>renderingPaused := False\<rparr> else v6))))))"

text \<open>
  \<^verbatim>\<open>ViewerBase.__init__\<close>: the attributes as the constructor sets them, then the
  first update, with \<^verbatim>\<open>preserveExisting\<close> and \<^verbatim>\<open>updateModelMatrix\<close> set.
\<close>

definition ViewerBase_fields :: "bool \<Rightarrow> ViewerBase" where
  "ViewerBase_fields lineMesh =
     \<lparr>cam_position = (0, 0, 5), cam_up = (0, 1, 0), controls_target = (0, 0, 0),
      cam_lookAt = [], controls_shaderMaterial = None,
      avoidRedrawFlicker = False, renderingPaused = False, modelMatrixVertices = None,
      meshes = [], ghostMeshes = [],
      materialLibrary = MaterialLibrary_init lineMesh,
      bufferAttributeStash = [],
      currMesh = None, wireframeMesh = None, pointsMesh = None, vectorFieldMesh = None,
      scalarField = None, vectorField = None, arrowMaterial = None,
      geom_attributes = (\<lambda>g. []), buffer_array = (\<lambda>b. UIntArray []),
      next_id = 0, allocated = [], closeLog = []\<rparr>"

definition ViewerBase_init :: "bool \<Rightarrow> geometry_args \<Rightarrow> py_error option \<times> ViewerBase" where
  "ViewerBase_init lineMesh a =
     setGeometry (ViewerBase_fields lineMesh) (a\<lparr>preserveExisting := True, updateModelMatrix := True\<rparr>)"

text \<open>
  A sequence of \<^verbatim>\<open>setGeometry\<close> calls. A call that raises leaves the viewer as
  it was when the exception left the call, and the next call goes on from there.
\<close>

fun setGeometry_calls :: "ViewerBase \<Rightarrow> geometry_args list \<Rightarrow> ViewerBase" where
  "setGeometry_calls v [] = v"
| "setGeometry_calls v (a # as) = setGeometry_calls (snd (setGeometry v a)) as"

text \<open>The attribute dictionary of the current mesh's geometry.\<close>

definition currAttributes :: "ViewerBase \<Rightarrow> nat pydict" where
  "currAttributes v = (case currMesh v of None \<Rightarrow> [] | Some cm \<Rightarrow> geom_attributes v (geometry cm))"

text \<open>
  The invariant stated in the constructor: a stashable attribute is attached
  to the current geometry or in the stash, but not both.
\<close>

definition stash_exclusive :: "ViewerBase \<Rightarrow> bool" where
  "stash_exclusive v =
     list_all (\<lambda>key. map_of (currAttributes v) key = None \<or> map_of (bufferAttributeStash v) key = None)
       stashableKeys"

section \<open>Well-formed material libraries\<close>

text \<open>
  Every cached material was constructed by the library, and two keys never
  hold the same object. The empty library has the property and
  \<^verbatim>\<open>material\<close>, \<^verbatim>\<open>ghostMaterial\<close> and \<^verbatim>\<open>freeMaterial\<close> keep it.
\<close>

definition lib_wf :: "MaterialLibrary \<Rightarrow> bool" where
  "lib_wf lib \<longleftrightarrow>
     (\<forall>k m. materials lib k = Some m \<longrightarrow> mat_id m < constructed lib) \<and>
     (\<forall>k k' m m'. materials lib k = Some m \<and> materials lib k' = Some m' \<and> mat_id m = mat_id m' \<longrightarrow> k = k')"

text \<open>The exception of \<^verbatim>\<open>freeMaterial\<close>.\<close>

definition not_found :: py_error where
  "not_found = Exception ''Material to be freed is not found (is it a ghost?)''"


text \<open>
  An example library: the solid material with vertex colours and its ghost.
\<close>

definition demo_lib :: MaterialLibrary where
  "demo_lib = snd (ghostMaterial (snd (material (MaterialLibrary_init False) True None))
                 (fst (material (MaterialLibrary_init False) True None)))"

definition demo_ghost :: Material where
  "demo_ghost = fst (ghostMaterial (snd (material (MaterialLibrary_init False) True None))
                 (fst (material (MaterialLibrary_init False) True None)))"

section \<open>Auxiliary notions for the statements\<close>

text \<open>
  The rows \<open>is\<close> of an array (for indices in range, what \<open>np_take\<close> returns),
  and the value \<^verbatim>\<open>replicateAttributesPerTriCorner\<close> is meant to leave under a
  key: the colours three times each, every other attribute gathered by the
  index.
\<close>

definition rows_at :: "ndarray \<Rightarrow> nat list \<Rightarrow> ndarray" where
  "rows_at a is = (case a of FloatArray rows \<Rightarrow> FloatArray (map ((!) rows) is)
                   | UIntArray xs \<Rightarrow> UIntArray (map ((!) xs) is))"

definition corner_value :: "bool \<Rightarrow> nat list \<Rightarrow> string \<Rightarrow> ndarray \<Rightarrow> ndarray" where
  "corner_value perTriColor is key a =
     (if perTriColor \<and> key = ''color'' then np_repeat a 3 else rows_at a is)"

text \<open>
  A mesh of four vertices and one triangle, \<open>(0, 1, 3)\<close>, with a per-face
  colour: vertex 2 belongs to no face.
\<close>

definition one_face_mesh_attr :: "ndarray pydict" where
  "one_face_mesh_attr =
     [(''position'', FloatArray [[Finite 0, Finite 0, Finite 0], [Finite 1, Finite 0, Finite 0],
                                 [Finite 5, Finite 5, Finite 5], [Finite 0, Finite 1, Finite 0]]),
      (''index'', UIntArray [0, 1, 3]),
      (''normal'', FloatArray [[Finite 0, Finite 0, Finite 1], [Finite 0, Finite 0, Finite 1],
                               [Finite 0, Finite 0, Finite 1], [Finite 0, Finite 0, Finite 1]]),
      (''color'', FloatArray [[Finite 1, Finite 0, Finite 0]])]"

text \<open>
  The uv rows shifted and divided column by column, written with the column
  minima and maxima of the rows given: the entry \<open>x\<close> of a column with minimum
  \<open>lo\<close> and maximum \<open>hi\<close> becomes \<open>(x - lo) / (hi - lo)\<close>, and \<^verbatim>\<open>nan\<close> when the
  column is constant.
\<close>

definition unit_square_rows :: "(real \<times> real) list \<Rightarrow> (npfloat \<times> npfloat) list" where
  "unit_square_rows rows =
     (let us = set (map fst rows); vs = set (map snd rows)
      in map (\<lambda>(x, y). (if Min us = Max us then NaN else Finite ((x - Min us) / (Max us - Min us)),
                         if Min vs = Max vs then NaN else Finite ((y - Min vs) / (Max vs - Min vs)))) rows)"

text \<open>A column of float entries lies in the unit interval and reaches both ends.\<close>

definition spans_unit_interval :: "npfloat list \<Rightarrow> bool" where
  "spans_unit_interval col \<longleftrightarrow>
     list_all (\<lambda>p. case p of Finite x \<Rightarrow> 0 \<le> x \<and> x \<le> 1 | NaN \<Rightarrow> False) col \<and>
     Finite 0 \<in> set col \<and> Finite 1 \<in> set col"

text \<open>Example images: three rows of five pixels, and a single pixel.\<close>

definition image_3x5 :: image where
  "image_3x5 = \<lparr>img_h = 3, img_w = 5, img_rows = replicate 3 (replicate 5 [0, 0, 0, 255])\<rparr>"

definition image_1x1 :: image where
  "image_1x1 = \<lparr>img_h = 1, img_w = 1, img_rows = [[[0, 0, 0, 255]]]\<rparr>"

section \<open>Notions for the buffer bookkeeping\<close>

text \<open>
  \<open>same_scene v v'\<close>: the viewer \<open>v'\<close> differs from \<open>v\<close> at most in the stash, the
  buffer arrays, the next identity and the list of allocations: what
  \<^verbatim>\<open>allocateUpdateOrStashBufferAttribute\<close> may change.
\<close>

definition same_scene :: "ViewerBase \<Rightarrow> ViewerBase \<Rightarrow> bool" where
  "same_scene v v' \<longleftrightarrow>
     (\<exists>S B N A. v' = v\<lparr>bufferAttributeStash := S, buffer_array := B, next_id := N, allocated := A\<rparr>)"

text \<open>
  The effect of one call of \<^verbatim>\<open>allocateUpdateOrStashBufferAttribute\<close> on the
  dictionaries read as maps: \<open>R\<close> is \<^verbatim>\<open>attrRaw\<close>, \<open>A\<close> the attribute dictionary,
  \<open>S\<close> the stash and \<open>n\<close> the next identity. \<open>aus_allocates\<close> says when the call
  constructs a buffer.
\<close>

definition aus_attr :: "(string \<rightharpoonup> ndarray) \<Rightarrow> string \<Rightarrow> (string \<rightharpoonup> nat) \<Rightarrow> (string \<rightharpoonup> nat) \<Rightarrow> nat \<Rightarrow> (string \<rightharpoonup> nat)" where
  "aus_attr R key A S n =
     (if R key \<noteq> None
      then A(key \<mapsto> (case S key of Some b \<Rightarrow> b | None \<Rightarrow> (case A key of Some b \<Rightarrow> b | None \<Rightarrow> n)))
      else A(key := None))"

definition aus_stash :: "(string \<rightharpoonup> ndarray) \<Rightarrow> string \<Rightarrow> (string \<rightharpoonup> nat) \<Rightarrow> (string \<rightharpoonup> nat) \<Rightarrow> (string \<rightharpoonup> nat)" where
  "aus_stash R key A S =
     (if R key \<noteq> None then S(key := None)
      else (case A key of Some b \<Rightarrow> S(key \<mapsto> b) | None \<Rightarrow> S))"

definition aus_allocates :: "(string \<rightharpoonup> ndarray) \<Rightarrow> string \<Rightarrow> (string \<rightharpoonup> nat) \<Rightarrow> (string \<rightharpoonup> nat) \<Rightarrow> bool" where
  "aus_allocates R key A S \<longleftrightarrow> R key \<noteq> None \<and> S key = None \<and> A key = None"

text \<open>
  The invariant on a pair of dictionaries: no stashable key is in both.
\<close>

definition excl :: "(string \<rightharpoonup> nat) \<Rightarrow> (string \<rightharpoonup> nat) \<Rightarrow> bool" where
  "excl A S \<longleftrightarrow> (\<forall>k\<in>set stashableKeys. A k = None \<or> S k = None)"

text \<open>
  The bookkeeping state of the loops over the keys: the attribute dictionary
  and the stash as maps, the next identity, and the allocations so far.
  \<open>aus_pure\<close> is one call on this state; \<open>spk_pure\<close> is one round of the loop
  for a viewer without a current mesh, which also pops the key from
  \<^verbatim>\<open>attrRaw\<close>.
\<close>

type_synonym bookkeeping = "(string \<rightharpoonup> nat) \<times> (string \<rightharpoonup> nat) \<times> nat \<times> (string \<times> nat) list"

definition book :: "ViewerBase \<Rightarrow> nat pydict \<Rightarrow> bookkeeping" where
  "book v attr = (map_of attr, map_of (bufferAttributeStash v), next_id v, allocated v)"

fun aus_pure :: "(string \<rightharpoonup> ndarray) \<Rightarrow> string \<Rightarrow> bookkeeping \<Rightarrow> bookkeeping" where
  "aus_pure R key (A, S, n, L) =
     (aus_attr R key A S n, aus_stash R key A S,
      (if aus_allocates R key A S then Suc n else n),
      L @ (if aus_allocates R key A S then [(key, n)] else []))"

fun spk_pure :: "string \<Rightarrow> (string \<rightharpoonup> ndarray) \<times> bookkeeping \<Rightarrow> (string \<rightharpoonup> ndarray) \<times> bookkeeping" where
  "spk_pure key (R, b) =
     (if key \<in> set stashableKeys then (R(key := None), aus_pure R key b) else (R, b))"

fun excl_b :: "bookkeeping \<Rightarrow> bool" where
  "excl_b (A, S, n, L) = excl A S"

definition bA :: "bookkeeping \<Rightarrow> (string \<rightharpoonup> nat)" where "bA b = fst b"

definition bS :: "bookkeeping \<Rightarrow> (string \<rightharpoonup> nat)" where "bS b = fst (snd b)"

definition bN :: "bookkeeping \<Rightarrow> nat" where "bN b = fst (snd (snd b))"

definition bL :: "bookkeeping \<Rightarrow> (string \<times> nat) list" where "bL b = snd (snd (snd b))"

text \<open>
  The invariant of the viewer: the stash invariant, and the geometry of the
  current mesh was constructed before the next identity was handed out.
\<close>

definition ids_fresh :: "ViewerBase \<Rightarrow> bool" where
  "ids_fresh v = (case currMesh v of None \<Rightarrow> True | Some cm \<Rightarrow> geometry cm < next_id v)"

definition viewer_inv :: "ViewerBase \<Rightarrow> bool" where
  "viewer_inv v \<longleftrightarrow> stash_exclusive v \<and> ids_fresh v"

text \<open>
  Names for the first and last steps of \<^verbatim>\<open>setGeometry\<close>: the two assignments at
  its start, \<^verbatim>\<open>pauseRendering\<close> and \<^verbatim>\<open>resumeRendering\<close>.
\<close>

definition frame_start :: "ViewerBase \<Rightarrow> geometry_args \<Rightarrow> ViewerBase" where
  "frame_start v a = v\<lparr>scalarField := scalarField_arg a, vectorField := vectorField_arg a\<rparr>"

definition pause :: "ViewerBase \<Rightarrow> ViewerBase" where
  "pause v = (if avoidRedrawFlicker v then v\<lparr>renderingPaused := True\<rparr> else v)"

definition resume :: "ViewerBase \<Rightarrow> ViewerBase" where
  "resume v = (if avoidRedrawFlicker v then v\<lparr>renderingPaused := False\<rparr> else v)"

section \<open>Notions for repeated updates\<close>

text \<open>
  \<open>n\<close> cycles of an update with the arguments \<open>on\<close> followed by an update with
  the arguments \<open>off\<close>.
\<close>

fun toggle_cycles :: "nat \<Rightarrow> ViewerBase \<Rightarrow> geometry_args \<Rightarrow> geometry_args \<Rightarrow> ViewerBase" where
  "toggle_cycles 0 v on off = v"
| "toggle_cycles (Suc n) v on off =
     toggle_cycles n (snd (setGeometry (snd (setGeometry v on)) off)) on off"

text \<open>
  A stashable key is known to the viewer when a buffer for it is attached or
  stashed; \<open>needs a k\<close> when the frame of \<open>a\<close> has the key \<open>k\<close>. An update in
  place with the arguments \<open>a\<close> is dead when it raises before it reaches the
  stashable keys (an empty vertex array with \<^verbatim>\<open>updateModelMatrix\<close>, a failing
  size check or index, a current geometry without positions or normals), and
  quiet when it is dead or every key it needs is known.
\<close>

definition known :: "ViewerBase \<Rightarrow> string \<Rightarrow> bool" where
  "known v k \<longleftrightarrow> map_of (currAttributes v) k \<noteq> None \<or> map_of (bufferAttributeStash v) k \<noteq> None"

definition has_pn :: "ViewerBase \<Rightarrow> bool" where
  "has_pn v \<longleftrightarrow> map_of (currAttributes v) ''position'' \<noteq> None \<and> map_of (currAttributes v) ''normal'' \<noteq> None"

definition needs :: "geometry_args \<Rightarrow> string \<Rightarrow> bool" where
  "needs a k \<longleftrightarrow> (case rawAttributes a of Inl e \<Rightarrow> False | Inr (raw, vc) \<Rightarrow> map_of raw k \<noteq> None)"

definition dead :: "ViewerBase \<Rightarrow> geometry_args \<Rightarrow> bool" where
  "dead v a \<longleftrightarrow> (updateModelMatrix a \<and> vertices a = []) \<or> isl (rawAttributes a) \<or> \<not> has_pn v"

definition quiet :: "ViewerBase \<Rightarrow> geometry_args \<Rightarrow> bool" where
  "quiet v a \<longleftrightarrow> dead v a \<or> (\<forall>k\<in>set stashableKeys. needs a k \<longrightarrow> known v k)"

definition steady :: "ViewerBase \<Rightarrow> geometry_args \<Rightarrow> geometry_args \<Rightarrow> bool" where
  "steady v on off \<longleftrightarrow> viewer_inv v \<and> currMesh v \<noteq> None \<and> quiet v on \<and> quiet v off"

section \<open>Notions for the disposal of ghosts\<close>

text \<open>
  The meshes that own a geometry: the ghosts, the current mesh and the vector
  field mesh.
\<close>

definition option_list :: "'a option \<Rightarrow> 'a list" where
  "option_list x = (case x of None \<Rightarrow> [] | Some y \<Rightarrow> [y])"

definition owned :: "ViewerBase \<Rightarrow> Mesh list" where
  "owned v = ghostMeshes v @ option_list (currMesh v) @ option_list (vectorFieldMesh v)"

definition buffers_of :: "ViewerBase \<Rightarrow> Mesh \<Rightarrow> nat list" where
  "buffers_of v m = map snd (geom_attributes v (geometry m))"

text \<open>
  \<open>owns v ms\<close>: the meshes \<open>ms\<close> are different objects with different
  geometries; no buffer is attached twice or attached and stashed; meshes,
  geometries and buffers were constructed before the next identity was handed
  out; and none of the meshes is the wireframe or the points mesh.
\<close>

definition owns :: "ViewerBase \<Rightarrow> Mesh list \<Rightarrow> bool" where
  "owns v ms \<longleftrightarrow>
     distinct (map mesh_id ms) \<and>
     distinct (map geometry ms) \<and>
     distinct (concat (map (buffers_of v) ms) @ map snd (bufferAttributeStash v)) \<and>
     (\<forall>m\<in>set ms. mesh_id m < next_id v \<and> geometry m < next_id v \<and>
                   \<not> is_mesh m (wireframeMesh v) \<and> \<not> is_mesh m (pointsMesh v)) \<and>
     (\<forall>b\<in>set (concat (map (buffers_of v) ms) @ map snd (bufferAttributeStash v)). b < next_id v)"

text \<open>
  The groups: the live group has no child twice, its children (and the
  wireframe and points meshes) were constructed before the next identity was
  handed out, no ghost is in the live group, and the current mesh is.
\<close>

definition groups_ok :: "ViewerBase \<Rightarrow> bool" where
  "groups_ok v \<longleftrightarrow>
     distinct (meshes v) \<and>
     (\<forall>i\<in>set (meshes v). i < next_id v) \<and>
     (\<forall>g\<in>set (ghostMeshes v). mesh_id g \<notin> set (meshes v)) \<and>
     (\<forall>m\<in>set (option_list (currMesh v)). mesh_id m \<in> set (meshes v)) \<and>
     (\<forall>w\<in>set (option_list (wireframeMesh v) @ option_list (pointsMesh v)). mesh_id w < next_id v)"

text \<open>
  A well-formed scene. The constructor's attributes form one, and
  \<^verbatim>\<open>setGeometry\<close> keeps the scene well formed, also when it raises.
\<close>

definition scene_ok :: "ViewerBase \<Rightarrow> bool" where
  "scene_ok v \<longleftrightarrow> viewer_inv v \<and> owns v (owned v) \<and> groups_ok v"

text \<open>
  The buffers of an attribute dictionary and of the stash: all different and
  constructed before the next identity was handed out; and a step of the
  bookkeeping from \<open>(attr, v)\<close> to \<open>(attr', v')\<close>, after which every buffer is
  one of the buffers before the step or a new one.
\<close>

definition vals_ok :: "nat pydict \<Rightarrow> ViewerBase \<Rightarrow> bool" where
  "vals_ok attr v \<longleftrightarrow>
     distinct (map snd attr @ map snd (bufferAttributeStash v)) \<and>
     (\<forall>b\<in>set (map snd attr @ map snd (bufferAttributeStash v)). b < next_id v)"

definition vals_step :: "nat pydict \<Rightarrow> ViewerBase \<Rightarrow> nat pydict \<Rightarrow> ViewerBase \<Rightarrow> bool" where
  "vals_step attr v attr' v' \<longleftrightarrow>
     next_id v \<le> next_id v' \<and>
     vals_ok attr' v' \<and>
     (\<forall>b\<in>set (map snd attr' @ map snd (bufferAttributeStash v')).
        b \<in> set (map snd attr @ map snd (bufferAttributeStash v)) \<or> next_id v \<le> b)"

text \<open>The calls \<^verbatim>\<open>__cleanMeshes\<close> makes for one mesh.\<close>

definition ghost_events :: "ViewerBase \<Rightarrow> Mesh \<Rightarrow> three_event list" where
  "ghost_events v g =
     (if \<not> is_mesh g (wireframeMesh v) \<and> \<not> is_mesh g (pointsMesh v)
      then [Dispose_geometry (geometry g)] @ map Close_attribute (buffers_of v g) @ [Close_geometry (geometry g)]
      else [])
     @ [Close_mesh (mesh_id g)]"

section \<open>Example viewers\<close>

text \<open>
  A viewer of one triangle, the arguments of an update with a per-vertex
  scalar field, the viewer after the field was switched on and off again, and
  the two updates with \<^verbatim>\<open>preserveExisting\<close> set.
\<close>

definition tri_args :: geometry_args where
  "tri_args = \<lparr>vertices = [[Finite 0, Finite 0, Finite 0], [Finite 1, Finite 0, Finite 0], [Finite 0, Finite 1, Finite 0]],
               idxs = [[0, 1, 2]],
               normals = [[Finite 0, Finite 0, Finite 1], [Finite 0, Finite 0, Finite 1], [Finite 0, Finite 0, Finite 1]],
               preserveExisting = False, updateModelMatrix = False, textureMap = None,
               scalarField_arg = None, vectorField_arg = None\<rparr>"

definition vertex_colors :: ScalarField where
  "vertex_colors = \<lparr>sf_domainType = PER_VTX,
                    sf_colors = [[Finite 1, Finite 0, Finite 0], [Finite 0, Finite 1, Finite 0], [Finite 0, Finite 0, Finite 1]]\<rparr>"

definition tri_viewer :: ViewerBase where
  "tri_viewer = snd (ViewerBase_init False tri_args)"

definition field_on :: geometry_args where
  "field_on = tri_args\<lparr>scalarField_arg := Some vertex_colors\<rparr>"

definition stashed_viewer :: ViewerBase where
  "stashed_viewer = setGeometry_calls tri_viewer [field_on, tri_args]"

definition preserving_on :: geometry_args where
  "preserving_on = tri_args\<lparr>scalarField_arg := Some vertex_colors, preserveExisting := True\<rparr>"

definition preserving_off :: geometry_args where
  "preserving_off = tri_args\<lparr>preserveExisting := True\<rparr>"

text \<open>
  A per-vertex vector field with opaque arrow colours, and the viewer the
  constructor builds for the triangle with this field.
\<close>

definition arrows :: VectorField where
  "arrows = \<lparr>vf_domainType = PER_VTX,
             vf_vectors = [[Finite 1, Finite 0, Finite 0], [Finite 0, Finite 1, Finite 0],
                           [Finite 0, Finite 0, Finite 1]],
             vf_arrowColors = [[Finite 1, Finite 0, Finite 0, Finite 1],
                               [Finite 0, Finite 1, Finite 0, Finite 1],
                               [Finite 0, Finite 0, Finite 1, Finite 1]]\<rparr>"

definition arrow_viewer :: ViewerBase where
  "arrow_viewer = snd (ViewerBase_init False (tri_args\<lparr>vectorField_arg := Some arrows\<rparr>))"

section \<open>Properties of the material cache\<close>

lemma str_bool_inj: "str_bool a = str_bool b \<longleftrightarrow> a = b"
  by (simp add: str_bool_def)

lemma mangled_untextured_ghost_vs_solid:
  "mangledMaterialName True vc None \<noteq> mangledMaterialName False vc' None"
  by (simp add: mangledMaterialName_def)

lemma mangled_textured_inj:
  "mangledMaterialName g vc (Some t) = mangledMaterialName g' vc' (Some t') \<longleftrightarrow> vc = vc' \<and> t = t'"
proof -
  have "str_bool vc @ ''_tex'' @ model_id t = str_bool vc' @ ''_tex'' @ model_id t'
          \<longleftrightarrow> vc = vc' \<and> model_id t = model_id t'"
    by (cases vc; cases vc') (simp_all add: str_bool_def)
  then show ?thesis
    by (cases t; cases t') (simp add: mangledMaterialName_def)
qed

lemma mangled_textured_vs_untextured:
  "mangledMaterialName g vc (Some t) \<noteq> mangledMaterialName g' vc' None"
  by (cases vc; cases vc'; cases g') (simp_all add: mangledMaterialName_def str_bool_def)

lemma mangled_solid_inj:
  "mangledMaterialName False vc tex = mangledMaterialName False vc' tex' \<longleftrightarrow> vc = vc' \<and> tex = tex'"
proof (cases tex; cases tex')
  fix t t' assume "tex = Some t" "tex' = Some t'"
  then show ?thesis by (simp add: mangled_textured_inj)
next
  fix t assume "tex = Some t" "tex' = None"
  then show ?thesis by (simp add: mangled_textured_vs_untextured)
next
  fix t' assume "tex = None" "tex' = Some t'"
  then show ?thesis using mangled_textured_vs_untextured [of False vc' t' False vc] by auto
next
  assume "tex = None" "tex' = None"
  then show ?thesis by (simp add: mangledMaterialName_def str_bool_inj)
qed

text \<open>
  C1. The key must tell ghost from solid materials. In the textured branch
  \<^verbatim>\<open>_mangledMaterialName\<close> writes the constant \<^verbatim>\<open>'solid'\<close> where the untextured
  branch writes the computed category, so a ghost and a solid descriptor that
  carry the same texture get the same key.
\<close>

theorem C1_ghost_and_solid_textured_share_key:
  "mangledMaterialName True False (Some (DataTexture ''a1'')) = ''solid_vcFalse_texa1'' \<and>
   mangledMaterialName False False (Some (DataTexture ''a1'')) = ''solid_vcFalse_texa1''"
  by (simp add: mangledMaterialName_def str_bool_def)

lemma lib_wf_init: "lib_wf (MaterialLibrary_init lm)"
  by (simp add: lib_wf_def MaterialLibrary_init_def)

lemma mat_id_new_material: "mat_id (new_material i l args t opac) = i"
  by (simp add: new_material_def)

lemma lib_wf_insert:
  assumes "lib_wf lib" "materials lib name = None" "mat_id m = constructed lib"
  shows "lib_wf (lib\<lparr>materials := (materials lib)(name \<mapsto> m), constructed := Suc (constructed lib)\<rparr>)"
proof -
  have below: "\<And>k m'. materials lib k = Some m' \<Longrightarrow> mat_id m' < constructed lib"
    using assms(1) by (auto simp: lib_wf_def)
  have inj: "\<And>k k' a b. materials lib k = Some a \<Longrightarrow> materials lib k' = Some b
               \<Longrightarrow> mat_id a = mat_id b \<Longrightarrow> k = k'"
    using assms(1) unfolding lib_wf_def by blast
  show ?thesis
    unfolding lib_wf_def
  proof (intro conjI allI impI)
    fix k m'
    assume "materials (lib\<lparr>materials := (materials lib)(name \<mapsto> m),
              constructed := Suc (constructed lib)\<rparr>) k = Some m'"
    then show "mat_id m' < constructed (lib\<lparr>materials := (materials lib)(name \<mapsto> m),
              constructed := Suc (constructed lib)\<rparr>)"
      using below [of k m'] assms(3) by (auto split: if_splits)
  next
    fix k k' a b
    assume "materials (lib\<lparr>materials := (materials lib)(name \<mapsto> m),
              constructed := Suc (constructed lib)\<rparr>) k = Some a \<and>
            materials (lib\<lparr>materials := (materials lib)(name \<mapsto> m),
              constructed := Suc (constructed lib)\<rparr>) k' = Some b \<and> mat_id a = mat_id b"
    then show "k = k'"
      using below [of k a] below [of k' b] inj [of k a k' b] assms(3)
      by (auto split: if_splits)
  qed
qed

lemma lib_wf_material: "lib_wf lib \<Longrightarrow> lib_wf (snd (material lib vc tex))"
  by (auto simp: material_def Let_def mat_id_new_material split: option.splits intro!: lib_wf_insert)

lemma lib_wf_ghostMaterial: "lib_wf lib \<Longrightarrow> lib_wf (snd (ghostMaterial lib m))"
  by (auto simp: ghostMaterial_def Let_def mat_id_new_material split: option.splits prod.splits intro!: lib_wf_insert)

lemma lib_wf_freeMaterial: "lib_wf lib \<Longrightarrow> lib_wf (snd (freeMaterial lib m))"
  unfolding freeMaterial_def Let_def lib_wf_def
  by (auto split: option.splits if_splits)

lemma material_cached:
  "materials (snd (material lib vc tex)) (mangledMaterialName False vc tex) = Some (fst (material lib vc tex))"
  by (simp add: material_def Let_def split: option.splits)

lemma material_again:
  "material (snd (material lib vc tex)) vc tex = (fst (material lib vc tex), snd (material lib vc tex))"
  using material_cached [of lib vc tex]
  by (simp add: material_def [of "snd (material lib vc tex)"] Let_def)

lemma material_other_key:
  assumes "lib_wf lib" "tex \<noteq> tex'"
  shows "mat_id (fst (material (snd (material lib vc tex)) vc' tex')) \<noteq> mat_id (fst (material lib vc tex))"
proof -
  let ?l1 = "snd (material lib vc tex)"
  have wf1: "lib_wf ?l1" using assms(1) by (rule lib_wf_material)
  then have wf2: "lib_wf (snd (material ?l1 vc' tex'))" by (rule lib_wf_material)
  have k: "mangledMaterialName False vc tex \<noteq> mangledMaterialName False vc' tex'"
    using assms(2) by (simp add: mangled_solid_inj)
  have c1: "materials ?l1 (mangledMaterialName False vc tex) = Some (fst (material lib vc tex))"
    by (rule material_cached)
  have c2: "materials (snd (material ?l1 vc' tex')) (mangledMaterialName False vc' tex') = Some (fst (material ?l1 vc' tex'))"
    by (rule material_cached)
  have c1': "materials (snd (material ?l1 vc' tex')) (mangledMaterialName False vc tex) = Some (fst (material lib vc tex))"
    using c1 k by (simp add: material_def [of ?l1] Let_def split: option.splits)
  show ?thesis using wf2 c1' c2 k unfolding lib_wf_def by metis
qed


text \<open>
  C5. \<^verbatim>\<open>material\<close> called again with the same descriptors returns the cached
  object and leaves the library as it is (nothing is constructed); called with
  a different texture (or with a texture where there was none) it returns
  another object.
\<close>

theorem C5_material_same_instance:
  "lib_wf lib \<Longrightarrow>
   (case material lib vc tex of
      (m1, lib1) \<Rightarrow>
        material lib1 vc tex = (m1, lib1) \<and>
        (\<forall>vc' tex'. tex' \<noteq> tex \<longrightarrow> mat_id (fst (material lib1 vc' tex')) \<noteq> mat_id m1))"
  using material_again [of lib vc tex] material_other_key [of lib tex _ vc]
  by (auto simp: split_def)

theorem C5_witness:
  "lib_wf (MaterialLibrary_init False) \<and>
   (case material (MaterialLibrary_init False) True None of
      (m1, lib1) \<Rightarrow>
        material lib1 True None = (m1, lib1) \<and>
        mat_id (fst (material lib1 True (Some (DataTexture ''a1'')))) \<noteq> mat_id m1) \<and>
   mat_id (fst (material (MaterialLibrary_init False) True None)) = 0 \<and>
   mat_id (fst (material (snd (material (MaterialLibrary_init False) True None)) True
                  (Some (DataTexture ''a1'')))) = 1"
proof -
  have wf: "lib_wf (MaterialLibrary_init False)"
    by (rule lib_wf_init)
  have "case material (MaterialLibrary_init False) True None of
      (m1, lib1) \<Rightarrow>
        material lib1 True None = (m1, lib1) \<and>
        mat_id (fst (material lib1 True (Some (DataTexture ''a1'')))) \<noteq> mat_id m1"
    using C5_material_same_instance [OF wf, of True None]
    by (auto split: prod.splits)
  moreover have "mat_id (fst (material (MaterialLibrary_init False) True None)) = 0"
    by (simp add: material_def MaterialLibrary_init_def new_material_def Let_def)
  moreover have "mat_id (fst (material (snd (material (MaterialLibrary_init False) True None)) True
                  (Some (DataTexture ''a1'')))) = 1"
    by (simp add: material_def MaterialLibrary_init_def new_material_def Let_def
          mangledMaterialName_def str_bool_def)
  ultimately show ?thesis using wf by blast
qed

text \<open>
  C6. When the key of the material (computed as a solid material's key) is not
  in the cache, \<^verbatim>\<open>freeMaterial\<close> raises the not-found exception and the library
  is unchanged: no entry added or removed, nothing closed.
\<close>

theorem C6_freeMaterial_not_found:
  "materials lib (mangledNameForMaterial False mat) = None \<Longrightarrow>
   freeMaterial lib mat = (Some not_found, lib)"
  by (simp add: freeMaterial_def not_found_def Let_def)

theorem C6_witness:
  "materials (MaterialLibrary_init False)
     (mangledNameForMaterial False (fst (material (MaterialLibrary_init False) False None))) = None \<and>
   freeMaterial (MaterialLibrary_init False) (fst (material (MaterialLibrary_init False) False None))
     = (Some not_found, MaterialLibrary_init False)"
proof -
  have h: "materials (MaterialLibrary_init False)
     (mangledNameForMaterial False (fst (material (MaterialLibrary_init False) False None))) = None"
    by (simp add: MaterialLibrary_init_def)
  show ?thesis using h C6_freeMaterial_not_found [OF h] by simp
qed

text \<open>
  C10. For an untextured ghost material \<open>g\<close> that the library holds under its
  ghost key, \<^verbatim>\<open>freeMaterial\<close> computes the key with the ghost flag false. When
  the solid material with the same descriptors is cached, that one is removed
  and closed and the ghost stays cached; only when it is not cached does the
  call raise the not-found exception.
\<close>

theorem C10_freeMaterial_of_ghost:
  assumes "lib_wf lib" and "map_tex g = None"
    and "materials lib (mangledNameForMaterial True g) = Some g"
  shows "mangledNameForMaterial False g
           = mangledMaterialName False (vertexColors g = ''VertexColors'') None \<and>
         (case materials lib (mangledNameForMaterial False g) of
            Some solid \<Rightarrow>
              freeMaterial lib g =
                (None, lib\<lparr>materials := (materials lib)(mangledNameForMaterial False g := None),
                           closed := closed lib @ [solid]\<rparr>) \<and>
              mat_id solid \<noteq> mat_id g \<and>
              materials (snd (freeMaterial lib g)) (mangledNameForMaterial True g) = Some g
          | None \<Rightarrow> freeMaterial lib g = (Some not_found, lib))"
proof -
  have keys: "mangledNameForMaterial False g \<noteq> mangledNameForMaterial True g"
    using assms(2) mangled_untextured_ghost_vs_solid [of "vertexColors g = ''VertexColors''" "vertexColors g = ''VertexColors''"]
    by (auto simp: mangledNameForMaterial_def extractMaterialDescriptors_def)
  have name: "mangledNameForMaterial False g
           = mangledMaterialName False (vertexColors g = ''VertexColors'') None"
    using assms(2) by (simp add: mangledNameForMaterial_def extractMaterialDescriptors_def)
  have distinct: "mat_id solid \<noteq> mat_id g"
    if "materials lib (mangledNameForMaterial False g) = Some solid" for solid
    using that assms(1,3) keys unfolding lib_wf_def by blast
  show ?thesis
    using name keys distinct assms(3)
    by (auto simp: freeMaterial_def not_found_def Let_def split: option.splits)
qed

lemma demo_eval:
  "materials demo_lib ''ghost_vcTrue'' = Some demo_ghost"
  "map_tex demo_ghost = None" "mat_id demo_ghost = 1" "transparent demo_ghost"
  "mangledNameForMaterial True demo_ghost = ''ghost_vcTrue''"
  "mangledNameForMaterial False demo_ghost = ''solid_vcTrue''"
  "map_option mat_id (materials demo_lib ''solid_vcTrue'') = Some 0"
  by (simp_all add: demo_lib_def demo_ghost_def material_def ghostMaterial_def MaterialLibrary_init_def mangledMaterialName_def
        mangledNameForMaterial_def extractMaterialDescriptors_def
        str_bool_def new_material_def colorTexArgs_of_def Let_def)


lemma demo_lib_wf: "lib_wf demo_lib"
  unfolding demo_lib_def by (intro lib_wf_ghostMaterial lib_wf_material lib_wf_init)

theorem C10_witness:
  "lib_wf demo_lib \<and> map_tex demo_ghost = None \<and>
   materials demo_lib (mangledNameForMaterial True demo_ghost) = Some demo_ghost \<and>
   mangledNameForMaterial False demo_ghost = ''solid_vcTrue'' \<and>
   fst (freeMaterial demo_lib demo_ghost) = None \<and>
   map mat_id (closed (snd (freeMaterial demo_lib demo_ghost))) = [0] \<and>
   materials (snd (freeMaterial demo_lib demo_ghost)) ''solid_vcTrue'' = None \<and>
   materials (snd (freeMaterial demo_lib demo_ghost)) ''ghost_vcTrue'' = Some demo_ghost"
proof -
  have h: "materials demo_lib (mangledNameForMaterial True demo_ghost) = Some demo_ghost"
    by (simp add: demo_eval)
  obtain solid where s: "materials demo_lib ''solid_vcTrue'' = Some solid" "mat_id solid = 0"
    using demo_eval(7) by auto
  have c: "closed demo_lib = []"
    by (simp add: demo_lib_def material_def ghostMaterial_def MaterialLibrary_init_def Let_def
          split: option.splits prod.splits)
  have "case materials demo_lib (mangledNameForMaterial False demo_ghost) of
            Some solid \<Rightarrow>
              freeMaterial demo_lib demo_ghost =
                (None, demo_lib\<lparr>materials := (materials demo_lib)(mangledNameForMaterial False demo_ghost := None),
                           closed := closed demo_lib @ [solid]\<rparr>) \<and>
              mat_id solid \<noteq> mat_id demo_ghost \<and>
              materials (snd (freeMaterial demo_lib demo_ghost)) (mangledNameForMaterial True demo_ghost) = Some demo_ghost
          | None \<Rightarrow> freeMaterial demo_lib demo_ghost = (Some not_found, demo_lib)"
    using C10_freeMaterial_of_ghost [OF demo_lib_wf demo_eval(2) h] by (rule conjunct2)
  then have f: "freeMaterial demo_lib demo_ghost =
                (None, demo_lib\<lparr>materials := (materials demo_lib)(''solid_vcTrue'' := None),
                           closed := closed demo_lib @ [solid]\<rparr>)"
    and g: "materials (snd (freeMaterial demo_lib demo_ghost)) ''ghost_vcTrue'' = Some demo_ghost"
    unfolding demo_eval(5,6) using s(1) by (simp_all add: demo_eval(1))
  show ?thesis
    using g h by (simp add: f c s(2) demo_eval(2,6) demo_lib_wf)
qed

section \<open>Camera parameters\<close>

text \<open>
  C9. \<^verbatim>\<open>setCameraParams(p)\<close> followed by \<^verbatim>\<open>getCameraParams()\<close> returns \<open>p\<close>, for
  every viewer and every triple of position, up vector and target.
\<close>

theorem C9_camera_roundtrip: "getCameraParams (setCameraParams v p) = p"
  by (cases p) (simp add: getCameraParams_def setCameraParams_def Let_def)

section \<open>Replication per triangle corner\<close>

lemma gather_in_range:
  "\<forall>i\<in>set is. i < length xs \<Longrightarrow> gather xs is = Inr (map ((!) xs) is)"
  by (induction "is") simp_all

lemma gather_out_of_range:
  "\<exists>i\<in>set is. \<not> i < length xs \<Longrightarrow> gather xs is = Inl IndexError"
  by (induction "is") (auto split: sum.splits)

lemma np_take_in_range:
  "\<forall>i\<in>set is. i < np_len a \<Longrightarrow> np_take a (UIntArray is) = Inr (rows_at a is)"
  by (cases a) (simp_all add: gather_in_range rows_at_def)

lemma np_take_out_of_range:
  "\<exists>i\<in>set is. \<not> i < np_len a \<Longrightarrow> np_take a (UIntArray is) = Inl IndexError"
  by (cases a) (simp_all add: gather_out_of_range)

lemma np_len_rows_at: "np_len (rows_at a is) = length is"
  by (cases a) (simp_all add: rows_at_def)

lemma length_repeat_each: "length (repeat_each n xs) = n * length xs"
  by (induction xs) (simp_all add: repeat_each_def)

lemma np_len_repeat: "np_len (np_repeat a n) = n * np_len a"
  by (cases a) (simp_all add: length_repeat_each)

lemma replicate_keys_in_range:
  assumes "distinct ks"
    and "\<forall>k\<in>set ks. \<exists>a. map_of attr k = Some a \<and>
            (\<not> (p \<and> k = ''color'') \<longrightarrow> (\<forall>i\<in>set is. i < np_len a))"
  shows "\<exists>attr'. replicate_keys (UIntArray is) p ks attr = (None, attr') \<and>
           map fst attr' = map fst attr \<and>
           (\<forall>k. map_of attr' k =
              (if k \<in> set ks then map_option (corner_value p is k) (map_of attr k) else map_of attr k))"
  using assms
proof (induction ks arbitrary: attr)
  case Nil
  then show ?case by simp
next
  case (Cons key ks)
  from Cons.prems obtain a where a: "map_of attr key = Some a"
    and r: "\<not> (p \<and> key = ''color'') \<longrightarrow> (\<forall>i\<in>set is. i < np_len a)"
    by auto
  let ?b = "corner_value p is key a"
  let ?attr1 = "AList.update key ?b attr"
  have step: "replicate_keys (UIntArray is) p (key # ks) attr = replicate_keys (UIntArray is) p ks ?attr1"
    using a r by (auto simp: corner_value_def np_take_in_range)
  have d: "distinct ks" and nk: "key \<notin> set ks" using Cons.prems(1) by auto
  have pre: "\<forall>k\<in>set ks. \<exists>a. map_of ?attr1 k = Some a \<and>
            (\<not> (p \<and> k = ''color'') \<longrightarrow> (\<forall>i\<in>set is. i < np_len a))"
    using Cons.prems(2) nk by (auto simp: update_conv')
  from Cons.IH [OF d pre] obtain attr' where
    res: "replicate_keys (UIntArray is) p ks ?attr1 = (None, attr')"
    and keys: "map fst attr' = map fst ?attr1"
    and vals: "\<forall>k. map_of attr' k =
              (if k \<in> set ks then map_option (corner_value p is k) (map_of ?attr1 k) else map_of ?attr1 k)"
    by blast
  have k1: "map fst ?attr1 = map fst attr"
    using a by (simp add: update_keys map_of_eq_None_iff [symmetric] image_iff) (metis domI dom_map_of_conv_image_fst image_iff)
  show ?case
    using step res keys vals k1 a nk by (auto simp: update_conv')
qed


lemma replicate_in_range:
  assumes idx: "map_of attr ''index'' = Some (UIntArray is)"
    and d: "distinct (map fst attr)"
    and r: "\<forall>(k, a)\<in>set attr. k \<noteq> ''color'' \<longrightarrow> (\<forall>i\<in>set is. i < np_len a)"
  shows "\<exists>attr'. replicateAttributesPerTriCorner attr True = (None, attr') \<and>
           map fst attr' = map fst attr \<and>
           map_of attr' ''index'' = Some (np_arange (length is)) \<and>
           (\<forall>k a. k \<noteq> ''index'' \<longrightarrow> map_of attr k = Some a \<longrightarrow>
                  map_of attr' k = Some (corner_value True is k a))"
proof -
  have pre: "\<forall>k\<in>set (map fst attr). \<exists>a. map_of attr k = Some a \<and>
            (\<not> (True \<and> k = ''color'') \<longrightarrow> (\<forall>i\<in>set is. i < np_len a))"
  proof
    fix k assume "k \<in> set (map fst attr)"
    then obtain a where ka: "(k, a) \<in> set attr" by auto
    then have "map_of attr k = Some a" using d by simp
    then show "\<exists>a. map_of attr k = Some a \<and>
            (\<not> (True \<and> k = ''color'') \<longrightarrow> (\<forall>i\<in>set is. i < np_len a))"
      using r ka by auto
  qed
  from replicate_keys_in_range [OF d pre] obtain attr1 where
    res: "replicate_keys (UIntArray is) True (map fst attr) attr = (None, attr1)"
    and keys: "map fst attr1 = map fst attr"
    and vals: "\<forall>k. map_of attr1 k =
              (if k \<in> set (map fst attr) then map_option (corner_value True is k) (map_of attr k)
               else map_of attr k)"
    by blast
  have in_keys: "''index'' \<in> fst ` set attr1"
    using idx keys by (metis image_set map_of_eq_None_iff option.distinct(1))
  have "''index'' \<in> set (map fst attr1)"
    using in_keys by simp
  then have k2: "map fst (AList.update ''index'' (np_arange (length is)) attr1) = map fst attr"
    unfolding update_keys keys by simp
  have v2: "map_of attr k = Some a \<Longrightarrow> map_of attr1 k = Some (corner_value True is k a)" for k a
    using vals by (auto simp: map_of_eq_None_iff [symmetric] dest: map_of_SomeD intro: rev_image_eqI)
  show ?thesis
    using res idx k2 v2 by (simp add: replicateAttributesPerTriCorner_def update_conv')
qed

text \<open>
  When every index value is a valid position in every attribute the loop
  gathers (the index array among them), the result has \<open>length is\<close> entries
  under every key but \<^verbatim>\<open>'color'\<close>, three entries per colour row, and the
  identity index.
\<close>

lemma replicate_corner_counts:
  assumes "map_of attr ''index'' = Some (UIntArray is)"
    and "distinct (map fst attr)"
    and "\<forall>(k, a)\<in>set attr. k \<noteq> ''color'' \<longrightarrow> (\<forall>i\<in>set is. i < np_len a)"
    and "replicateAttributesPerTriCorner attr True = (e, attr')"
  shows "e = None \<and> map_of attr' ''index'' = Some (UIntArray [0..<length is]) \<and>
         (\<forall>k a. k \<noteq> ''index'' \<longrightarrow> map_of attr k = Some a \<longrightarrow>
            (\<exists>b. map_of attr' k = Some b \<and>
                 np_len b = (if k = ''color'' then 3 * np_len a else length is)))"
  using replicate_in_range [OF assms(1,2,3)] assms(4)
  by (auto simp: np_arange_def corner_value_def np_len_repeat np_len_rows_at)

text \<open>
  C4. The loop of \<^verbatim>\<open>replicateAttributesPerTriCorner\<close> visits the key
  \<^verbatim>\<open>'index'\<close> too and gathers the index array by itself, before the identity
  index replaces it. For the triangle \<open>(0, 1, 3)\<close> of a mesh with four vertices
  the index array has three entries and the value 3 is out of its range: the
  call raises \<^verbatim>\<open>IndexError\<close> instead of producing the three corners.
\<close>

theorem C4_index_gathered_by_itself:
  "fst (replicateAttributesPerTriCorner one_face_mesh_attr True) = Some IndexError"
  by (simp add: replicateAttributesPerTriCorner_def one_face_mesh_attr_def)

section \<open>Texture maps\<close>

lemma ceil_log2_nonneg: "0 < s \<Longrightarrow> 0 \<le> \<lceil>log 2 (real s)\<rceil>"
proof -
  assume "0 < s"
  then have "1 \<le> real s" by simp
  then have "0 \<le> log 2 (real s)" by simp
  then show ?thesis by (simp add: ceiling_le_iff [symmetric] le_ceiling_iff)
qed

lemma exp2_ceil_log2_pos:
  assumes "0 < s"
  shows "exp2_ceil_log2 s = 2 ^ nat \<lceil>log 2 (real s)\<rceil>"
proof -
  let ?k = "\<lceil>log 2 (real s)\<rceil>"
  have k: "0 \<le> ?k" using assms by (rule ceil_log2_nonneg)
  then have "real_of_int ?k = real (nat ?k)" by simp
  then have "2 powr real_of_int ?k = (2::real) ^ nat ?k"
    by (simp add: powr_realpow)
  also have "\<dots> = real (2 ^ nat ?k)" by simp
  finally have "\<lfloor>2 powr real_of_int ?k\<rfloor> = int (2 ^ nat ?k)"
    by (simp only: floor_of_nat)
  then show ?thesis using assms by (simp add: exp2_ceil_log2_def)
qed

lemma exp2_ceil_log2_ge: "s \<le> exp2_ceil_log2 s"
proof (cases "s = 0")
  case True
  then show ?thesis by simp
next
  case False
  then have pos: "0 < s" by simp
  let ?k = "\<lceil>log 2 (real s)\<rceil>"
  have "real s = 2 powr log 2 (real s)" using pos by simp
  also have "\<dots> \<le> 2 powr real_of_int ?k" by (simp add: powr_le_cancel_iff)
  also have "\<dots> = 2 powr real (nat ?k)" using ceil_log2_nonneg [OF pos] by simp
  also have "\<dots> = real (2 ^ nat ?k)" by (simp add: powr_realpow)
  finally have "s \<le> 2 ^ nat ?k" using of_nat_le_iff by blast
  then show ?thesis by (simp add: exp2_ceil_log2_pos [OF pos])
qed

lemma exp2_ceil_log2_5: "exp2_ceil_log2 5 = 8"
proof -
  have "\<lceil>log (real 2) (real 5)\<rceil> = int 2 + 1"
    by (rule ceiling_log_nat_eq_if) simp_all
  then have "\<lceil>log 2 (real 5)\<rceil> = 3" by simp
  then show ?thesis by (simp add: exp2_ceil_log2_pos)
qed

lemma padded_side_ge: "max (img_w tex) (img_h tex) \<le> padded_side tex p2"
  using exp2_ceil_log2_ge [of "max (img_w tex) (img_h tex)"]
  by (simp add: padded_side_def Let_def)

lemma Max_shift:
  fixes S :: "real set"
  assumes "finite S" "S \<noteq> {}"
  shows "Max ((\<lambda>x. x - c) ` S) = Max S - c"
  using hom_Max_commute [of "\<lambda>x. x - c" S] assms by (simp add: max_def)

lemma normalize_uv_rows:
  assumes "rows \<noteq> []"
  shows "normalize_uv rows = Inr (unit_square_rows rows)"
proof -
  let ?us = "set (map fst rows)" and ?vs = "set (map snd rows)"
  let ?sh = "map (\<lambda>(x, y). (x - Min ?us, y - Min ?vs)) rows"
  have ne: "?us \<noteq> {}" "?vs \<noteq> {}" using assms by simp_all
  have "set (map fst ?sh) = (\<lambda>x. x - Min ?us) ` ?us" by force
  then have du: "Max (set (map fst ?sh)) = Max ?us - Min ?us"
    using Max_shift [of ?us "Min ?us"] ne by simp
  have "set (map snd ?sh) = (\<lambda>x. x - Min ?vs) ` ?vs" by force
  then have dv: "Max (set (map snd ?sh)) = Max ?vs - Min ?vs"
    using Max_shift [of ?vs "Min ?vs"] ne by simp
  have "normalize_uv rows =
          Inr (map (\<lambda>(x, y). (np_div x (Max ?us - Min ?us), np_div y (Max ?vs - Min ?vs))) ?sh)"
    using assms unfolding normalize_uv_def Let_def du dv by simp
  also have "map (\<lambda>(x, y). (np_div x (Max ?us - Min ?us), np_div y (Max ?vs - Min ?vs))) ?sh
             = unit_square_rows rows"
    unfolding unit_square_rows_def Let_def map_map
    by (rule map_cong) (auto simp: np_div_def)
  finally show ?thesis .
qed

lemma column_spans:
  fixes xs :: "real list"
  assumes "xs \<noteq> []" "Min (set xs) \<noteq> Max (set xs)"
  shows "spans_unit_interval (map (\<lambda>x. Finite ((x - Min (set xs)) / (Max (set xs) - Min (set xs)))) xs)"
proof -
  let ?lo = "Min (set xs)" and ?hi = "Max (set xs)"
  have fin: "finite (set xs)" "set xs \<noteq> {}" using assms(1) by simp_all
  have "?lo \<le> ?hi" using fin by (meson Min_le Max_ge Min_in order_trans)
  then have lt: "?lo < ?hi" using assms(2) by simp
  have rng: "0 \<le> (x - ?lo) / (?hi - ?lo) \<and> (x - ?lo) / (?hi - ?lo) \<le> 1" if "x \<in> set xs" for x
  proof -
    have "?lo \<le> x" "x \<le> ?hi" using that fin by simp_all
    then show ?thesis using lt by (simp add: divide_le_eq)
  qed
  have lo: "?lo \<in> set xs" and hi: "?hi \<in> set xs" using fin Min_in Max_in by blast+
  have "Finite ((?lo - ?lo) / (?hi - ?lo)) \<in> (\<lambda>x. Finite ((x - ?lo) / (?hi - ?lo))) ` set xs"
    using lo by (rule imageI)
  then have z: "Finite 0 \<in> (\<lambda>x. Finite ((x - ?lo) / (?hi - ?lo))) ` set xs" by simp
  have "Finite ((?hi - ?lo) / (?hi - ?lo)) \<in> (\<lambda>x. Finite ((x - ?lo) / (?hi - ?lo))) ` set xs"
    using hi by (rule imageI)
  then have o: "Finite 1 \<in> (\<lambda>x. Finite ((x - ?lo) / (?hi - ?lo))) ` set xs" using lt by simp
  show ?thesis
    unfolding spans_unit_interval_def using rng z o by (simp add: list_all_iff)
qed

lemma unit_square_rows_columns:
  "map fst (unit_square_rows rows) =
     (if Min (set (map fst rows)) = Max (set (map fst rows)) then map (\<lambda>x. NaN) (map fst rows)
      else map (\<lambda>x. Finite ((x - Min (set (map fst rows))) / (Max (set (map fst rows)) - Min (set (map fst rows)))))
             (map fst rows))"
  "map snd (unit_square_rows rows) =
     (if Min (set (map snd rows)) = Max (set (map snd rows)) then map (\<lambda>x. NaN) (map snd rows)
      else map (\<lambda>x. Finite ((x - Min (set (map snd rows))) / (Max (set (map snd rows)) - Min (set (map snd rows)))))
             (map snd rows))"
  by (simp_all add: unit_square_rows_def Let_def case_prod_beta comp_def)

text \<open>
  C8, amended. For every texture map the constructor builds, the padded side
  is \<open>max w h\<close>, or \<open>2 ^ \<lceil>log\<^sub>2 (max w h)\<rceil>\<close> with \<^verbatim>\<open>powerOfTwo\<close>; the padded image
  is a square of that side, with the new rows before the first row and the new
  pixels after the last pixel of each row; and the stored uv rows are the rows
  \<open>rows\<close> scaled by \<open>(w/s, h/s)\<close>, where \<open>rows\<close> are the input rows or, with
  \<^verbatim>\<open>normalizeUV\<close>, the input rows shifted and divided column by column. With
  \<^verbatim>\<open>normalizeUV\<close> there is at least one row, and a column of \<open>rows\<close> lies in
  \<open>[0, 1]\<close> and reaches \<open>0\<close> and \<open>1\<close>, unless the input column is constant, when
  all its entries are \<^verbatim>\<open>nan\<close>.
\<close>

theorem C8_texture_padding:
  assumes "TextureMap_init wid uv_in tex normalizeUV powerOfTwo = Inr tm"
  shows "let h = img_h tex; w = img_w tex; m = max w h;
             s = (if powerOfTwo then 2 ^ nat \<lceil>log 2 (real m)\<rceil> else m);
             rows = (if normalizeUV then unit_square_rows uv_in
                     else map (\<lambda>(x, y). (Finite x, Finite y)) uv_in)
         in 0 < s \<and> w \<le> s \<and> h \<le> s \<and>
            img_h (dataTex_data tm) = s \<and> img_w (dataTex_data tm) = s \<and>
            img_rows (dataTex_data tm) =
              replicate (s - h) (replicate s pad_pixel)
              @ map (\<lambda>row. row @ replicate (s - w) pad_pixel) (img_rows tex) \<and>
            uv tm = map (\<lambda>(p, q). (np_mul p (real w / real s), np_mul q (real h / real s))) rows \<and>
            (normalizeUV \<longrightarrow>
               uv_in \<noteq> [] \<and>
               (if Min (set (map fst uv_in)) = Max (set (map fst uv_in))
                then list_all (\<lambda>r. fst r = NaN) rows else spans_unit_interval (map fst rows)) \<and>
               (if Min (set (map snd uv_in)) = Max (set (map snd uv_in))
                then list_all (\<lambda>r. snd r = NaN) rows else spans_unit_interval (map snd rows)))"
proof -
  let ?m = "max (img_w tex) (img_h tex)"
  let ?s = "padded_side tex powerOfTwo"
  let ?rows = "if normalizeUV then unit_square_rows uv_in else map (\<lambda>(x, y). (Finite x, Finite y)) uv_in"
  have s0: "?s \<noteq> 0"
    using assms by (auto simp: TextureMap_init_def Let_def split: sum.splits if_splits)
  have ge: "?m \<le> ?s" by (rule padded_side_ge)
  have mpos: "0 < ?m"
  proof (rule ccontr)
    assume "\<not> 0 < ?m"
    then have "?m = 0" by simp
    then have "?s = 0" by (simp add: padded_side_def Let_def exp2_ceil_log2_def)
    with s0 show False by simp
  qed
  have s_eq: "?s = (if powerOfTwo then 2 ^ nat \<lceil>log 2 (real ?m)\<rceil> else ?m)"
    using mpos by (simp add: padded_side_def Let_def exp2_ceil_log2_pos)
  have ne: "uv_in \<noteq> []" if normalizeUV
    using assms that by (auto simp: TextureMap_init_def normalize_uv_def split: if_splits)
  have src: "(if normalizeUV then normalize_uv uv_in
              else Inr (map (\<lambda>(x, y). (Finite x, Finite y)) uv_in)) = Inr ?rows"
    using ne normalize_uv_rows by simp
  have sc: "scale_uv a b = (\<lambda>(p, q). (np_mul p a, np_mul q b))" for a b
    by (simp add: fun_eq_iff scale_uv_def)
  have uv_eq: "uv tm = map (\<lambda>(p, q). (np_mul p (real (img_w tex) / real ?s),
                                        np_mul q (real (img_h tex) / real ?s))) ?rows"
    using assms s0 unfolding TextureMap_init_def src sc by (auto simp: Let_def)
  have data: "dataTex_data tm = np_pad tex ?s"
    using assms s0 unfolding TextureMap_init_def src by (auto simp: Let_def)
  have wle: "img_w tex \<le> ?s" and hle: "img_h tex \<le> ?s" using ge by simp_all
  have span_u: "if Min (set (map fst uv_in)) = Max (set (map fst uv_in))
                then list_all (\<lambda>r. fst r = NaN) ?rows else spans_unit_interval (map fst ?rows)"
    if n: normalizeUV
  proof (cases "Min (set (map fst uv_in)) = Max (set (map fst uv_in))")
    case True
    then have "\<forall>r\<in>set (unit_square_rows uv_in). fst r = NaN"
      unfolding unit_square_rows_def Let_def by (simp add: case_prod_beta)
    then have "list_all (\<lambda>r. fst r = NaN) ?rows" using n by (simp add: list_all_iff)
    then show ?thesis by (subst if_P [OF True])
  next
    case False
    have "map fst uv_in \<noteq> []" using ne [OF n] by simp
    from column_spans [OF this False]
    have "spans_unit_interval (map fst (unit_square_rows uv_in))"
      unfolding unit_square_rows_columns(1) using False by (simp only: if_False)
    then have "spans_unit_interval (map fst ?rows)" using n by simp
    then show ?thesis by (subst if_not_P [OF False])
  qed
  have span_v: "if Min (set (map snd uv_in)) = Max (set (map snd uv_in))
                then list_all (\<lambda>r. snd r = NaN) ?rows else spans_unit_interval (map snd ?rows)"
    if n: normalizeUV
  proof (cases "Min (set (map snd uv_in)) = Max (set (map snd uv_in))")
    case True
    then have "\<forall>r\<in>set (unit_square_rows uv_in). snd r = NaN"
      unfolding unit_square_rows_def Let_def by (simp add: case_prod_beta)
    then have "list_all (\<lambda>r. snd r = NaN) ?rows" using n by (simp add: list_all_iff)
    then show ?thesis by (subst if_P [OF True])
  next
    case False
    have "map snd uv_in \<noteq> []" using ne [OF n] by simp
    from column_spans [OF this False]
    have "spans_unit_interval (map snd (unit_square_rows uv_in))"
      unfolding unit_square_rows_columns(2) using False by (simp only: if_False)
    then have "spans_unit_interval (map snd ?rows)" using n by simp
    then show ?thesis by (subst if_not_P [OF False])
  qed
  have A: "0 < ?s \<and> img_w tex \<le> ?s \<and> img_h tex \<le> ?s \<and>
            img_h (dataTex_data tm) = ?s \<and> img_w (dataTex_data tm) = ?s \<and>
            img_rows (dataTex_data tm) =
              replicate (?s - img_h tex) (replicate ?s pad_pixel)
              @ map (\<lambda>row. row @ replicate (?s - img_w tex) pad_pixel) (img_rows tex)"
    using s0 wle hle by (simp add: data np_pad_def)
  have B: "normalizeUV \<longrightarrow>
               uv_in \<noteq> [] \<and>
               (if Min (set (map fst uv_in)) = Max (set (map fst uv_in))
                then list_all (\<lambda>r. fst r = NaN) ?rows else spans_unit_interval (map fst ?rows)) \<and>
               (if Min (set (map snd uv_in)) = Max (set (map snd uv_in))
                then list_all (\<lambda>r. snd r = NaN) ?rows else spans_unit_interval (map snd ?rows))"
    using ne span_u span_v by (intro impI conjI)
  have "0 < ?s \<and> img_w tex \<le> ?s \<and> img_h tex \<le> ?s \<and>
            img_h (dataTex_data tm) = ?s \<and> img_w (dataTex_data tm) = ?s \<and>
            img_rows (dataTex_data tm) =
              replicate (?s - img_h tex) (replicate ?s pad_pixel)
              @ map (\<lambda>row. row @ replicate (?s - img_w tex) pad_pixel) (img_rows tex) \<and>
            uv tm = map (\<lambda>(p, q). (np_mul p (real (img_w tex) / real ?s),
                                    np_mul q (real (img_h tex) / real ?s))) ?rows \<and>
            (normalizeUV \<longrightarrow>
               uv_in \<noteq> [] \<and>
               (if Min (set (map fst uv_in)) = Max (set (map fst uv_in))
                then list_all (\<lambda>r. fst r = NaN) ?rows else spans_unit_interval (map fst ?rows)) \<and>
               (if Min (set (map snd uv_in)) = Max (set (map snd uv_in))
                then list_all (\<lambda>r. snd r = NaN) ?rows else spans_unit_interval (map snd ?rows)))"
    using A uv_eq B by (elim conjE, intro conjI) assumption+
  then show ?thesis
    unfolding Let_def s_eq [symmetric] .
qed


text \<open>
  For three rows of five pixels the side is 5 (8 with \<^verbatim>\<open>powerOfTwo\<close>), and the
  uv row \<open>(1, 1)\<close> is stored as \<open>(1, 3/5)\<close>; with \<^verbatim>\<open>normalizeUV\<close> the rows
  \<open>(1/2, 1/2)\<close> and \<open>(1, 1)\<close> are stored as \<open>(0, 0)\<close> and \<open>(1, 3/5)\<close>.
\<close>

theorem C8_witness:
  "TextureMap_init ''t1'' [(1, 1)] image_3x5 False False
     = Inr (projr (TextureMap_init ''t1'' [(1, 1)] image_3x5 False False)) \<and>
   img_h (dataTex_data (projr (TextureMap_init ''t1'' [(1, 1)] image_3x5 False False))) = 5 \<and>
   img_w (dataTex_data (projr (TextureMap_init ''t1'' [(1, 1)] image_3x5 False False))) = 5 \<and>
   uv (projr (TextureMap_init ''t1'' [(1, 1)] image_3x5 False False)) = [(Finite 1, Finite (3/5))] \<and>
   TextureMap_init ''t1'' [(1, 1)] image_3x5 False True
     = Inr (projr (TextureMap_init ''t1'' [(1, 1)] image_3x5 False True)) \<and>
   img_h (dataTex_data (projr (TextureMap_init ''t1'' [(1, 1)] image_3x5 False True))) = 8 \<and>
   uv (projr (TextureMap_init ''t1'' [(1, 1)] image_3x5 False True)) = [(Finite (5/8), Finite (3/8))] \<and>
   TextureMap_init ''t1'' [(1/2, 1/2), (1, 1)] image_3x5 True False
     = Inr (projr (TextureMap_init ''t1'' [(1/2, 1/2), (1, 1)] image_3x5 True False)) \<and>
   uv (projr (TextureMap_init ''t1'' [(1/2, 1/2), (1, 1)] image_3x5 True False))
     = [(Finite 0, Finite 0), (Finite 1, Finite (3/5))] \<and>
   spans_unit_interval (map fst (unit_square_rows [(1/2, 1/2), (1, 1)])) \<and>
   spans_unit_interval (map snd (unit_square_rows [(1/2, 1/2), (1, 1)]))"
proof -
  have side: "padded_side image_3x5 False = 5" "padded_side image_3x5 True = 8"
    by (simp_all add: padded_side_def image_3x5_def exp2_ceil_log2_5)
  have a: "TextureMap_init ''t1'' [(1, 1)] image_3x5 False False
     = Inr (projr (TextureMap_init ''t1'' [(1, 1)] image_3x5 False False))"
    by (simp add: TextureMap_init_def Let_def side)
  have b: "TextureMap_init ''t1'' [(1, 1)] image_3x5 False True
     = Inr (projr (TextureMap_init ''t1'' [(1, 1)] image_3x5 False True))"
    by (simp add: TextureMap_init_def Let_def side)
  have c: "TextureMap_init ''t1'' [(1/2, 1/2), (1, 1)] image_3x5 True False
     = Inr (projr (TextureMap_init ''t1'' [(1/2, 1/2), (1, 1)] image_3x5 True False))"
    by (simp add: TextureMap_init_def Let_def side normalize_uv_def)
  have l: "2 ^ nat \<lceil>log 2 (real 5)\<rceil> = (8::nat)"
    using exp2_ceil_log2_5 by (simp add: exp2_ceil_log2_pos)
  have l': "2 ^ nat \<lceil>log 2 5\<rceil> = (8::real)"
    using l by (metis of_nat_numeral of_nat_power)
  have l'': "2 ^ nat \<lceil>log 2 5\<rceil> = (8::nat)"
    using l by simp
  have rows: "unit_square_rows [(1/2, 1/2), (1, 1)] = [(Finite 0, Finite 0), (Finite 1, Finite 1)]"
    by (simp add: unit_square_rows_def Let_def)
  have ab: "img_h (dataTex_data (projr (TextureMap_init ''t1'' [(1, 1)] image_3x5 False False))) = 5 \<and>
   img_w (dataTex_data (projr (TextureMap_init ''t1'' [(1, 1)] image_3x5 False False))) = 5 \<and>
   uv (projr (TextureMap_init ''t1'' [(1, 1)] image_3x5 False False)) = [(Finite 1, Finite (3/5))] \<and>
   img_h (dataTex_data (projr (TextureMap_init ''t1'' [(1, 1)] image_3x5 False True))) = 8 \<and>
   uv (projr (TextureMap_init ''t1'' [(1, 1)] image_3x5 False True)) = [(Finite (5/8), Finite (3/8))]"
    using C8_texture_padding [OF a] C8_texture_padding [OF b]
    by (simp add: Let_def image_3x5_def l' l'')
  have cc: "uv (projr (TextureMap_init ''t1'' [(1/2, 1/2), (1, 1)] image_3x5 True False))
     = [(Finite 0, Finite 0), (Finite 1, Finite (3/5))] \<and>
   spans_unit_interval (map fst (unit_square_rows [(1/2, 1/2), (1, 1)])) \<and>
   spans_unit_interval (map snd (unit_square_rows [(1/2, 1/2), (1, 1)]))"
    using C8_texture_padding [OF c]
    by (simp add: Let_def image_3x5_def rows)
  show ?thesis using a b c ab cc by (elim conjE, intro conjI) assumption+
qed

text \<open>
  With \<^verbatim>\<open>normalizeUV\<close> the stored rows are not the input rows scaled: the rows
  \<open>(1/2, 1/2)\<close> and \<open>(1, 1)\<close> on a single pixel are stored as \<open>(0, 0)\<close> and
  \<open>(1, 1)\<close>.
\<close>

theorem C8_counterexample:
  "TextureMap_init ''t1'' [(1/2, 1/2), (1, 1)] image_1x1 True False
     = Inr (projr (TextureMap_init ''t1'' [(1/2, 1/2), (1, 1)] image_1x1 True False)) \<and>
   padded_side image_1x1 False = 1 \<and>
   uv (projr (TextureMap_init ''t1'' [(1/2, 1/2), (1, 1)] image_1x1 True False))
     = [(Finite 0, Finite 0), (Finite 1, Finite 1)] \<and>
   uv (projr (TextureMap_init ''t1'' [(1/2, 1/2), (1, 1)] image_1x1 True False))
     \<noteq> map (scale_uv (real (img_w image_1x1) / real (padded_side image_1x1 False))
                     (real (img_h image_1x1) / real (padded_side image_1x1 False)))
           [(Finite (1/2), Finite (1/2)), (Finite 1, Finite 1)]"
  by (simp add: TextureMap_init_def padded_side_def image_1x1_def Let_def scale_uv_def
        np_pad_def normalize_uv_def np_div_def)

section \<open>The buffer bookkeeping of setGeometry\<close>

subsection \<open>One key\<close>

lemma same_sceneI:
  "v' = v\<lparr>bufferAttributeStash := S, buffer_array := B, next_id := N, allocated := A\<rparr> \<Longrightarrow> same_scene v v'"
  unfolding same_scene_def by blast

lemma same_scene_refl: "same_scene v v"
  by (rule same_sceneI [where S="bufferAttributeStash v" and B="buffer_array v" and N="next_id v" and A="allocated v"]) simp

lemma same_scene_trans:
  assumes "same_scene v v'" "same_scene v' v''"
  shows "same_scene v v''"
proof -
  from assms(1) obtain S B N A where
    1: "v' = v\<lparr>bufferAttributeStash := S, buffer_array := B, next_id := N, allocated := A\<rparr>"
    unfolding same_scene_def by blast
  from assms(2) obtain S' B' N' A' where
    2: "v'' = v'\<lparr>bufferAttributeStash := S', buffer_array := B', next_id := N', allocated := A'\<rparr>"
    unfolding same_scene_def by blast
  show ?thesis
    by (rule same_sceneI [where S=S' and B=B' and N=N' and A=A']) (simp add: 1 2)
qed

lemma same_scene_fields:
  assumes "same_scene v v'"
  shows "currMesh v' = currMesh v" "geom_attributes v' = geom_attributes v"
    "ghostMeshes v' = ghostMeshes v" "vectorFieldMesh v' = vectorFieldMesh v"
    "wireframeMesh v' = wireframeMesh v" "pointsMesh v' = pointsMesh v"
    "closeLog v' = closeLog v" "meshes v' = meshes v"
    "materialLibrary v' = materialLibrary v" "avoidRedrawFlicker v' = avoidRedrawFlicker v"
    "vectorField v' = vectorField v" "arrowMaterial v' = arrowMaterial v"
  using assms unfolding same_scene_def by auto

lemma AUS_step:
  assumes "map_of attr key = None \<or> map_of (bufferAttributeStash v) key = None"
  shows "\<exists>v' attr'. allocateUpdateOrStashBufferAttribute raw key v attr = (None, v', attr') \<and>
           same_scene v v' \<and>
           map_of attr' = aus_attr (map_of raw) key (map_of attr) (map_of (bufferAttributeStash v)) (next_id v) \<and>
           map_of (bufferAttributeStash v') = aus_stash (map_of raw) key (map_of attr) (map_of (bufferAttributeStash v)) \<and>
           next_id v' = (if aus_allocates (map_of raw) key (map_of attr) (map_of (bufferAttributeStash v))
                         then Suc (next_id v) else next_id v) \<and>
           allocated v' = allocated v @
                        (if aus_allocates (map_of raw) key (map_of attr) (map_of (bufferAttributeStash v))
                         then [(key, next_id v)] else [])"
proof (cases "map_of raw key")
  case None
  show ?thesis
  proof (cases "map_of attr key")
    case N2: None
    show ?thesis using None N2 assms
      by (simp add: allocateUpdateOrStashBufferAttribute_def aus_attr_def aus_stash_def aus_allocates_def
            same_scene_refl fun_upd_idem)
  next
    case (Some b)
    have "same_scene v (v\<lparr>bufferAttributeStash := AList.update key b (bufferAttributeStash v)\<rparr>)"
      by (rule same_sceneI [where S="AList.update key b (bufferAttributeStash v)" and B="buffer_array v" and N="next_id v" and A="allocated v"]) simp
    then show ?thesis using None Some assms
      by (simp add: allocateUpdateOrStashBufferAttribute_def aus_attr_def aus_stash_def aus_allocates_def
            update_conv' delete_conv')
  qed
next
  case (Some arr)
  show ?thesis
  proof (cases "map_of (bufferAttributeStash v) key")
    case S: (Some b)
    then have an: "map_of attr key = None" using assms by auto
    have "same_scene v (v\<lparr>bufferAttributeStash := AList.delete key (bufferAttributeStash v),
                           buffer_array := (buffer_array v)(b := arr)\<rparr>)"
      by (rule same_sceneI [where S="AList.delete key (bufferAttributeStash v)" and B="(buffer_array v)(b := arr)" and N="next_id v" and A="allocated v"]) simp
    then show ?thesis using Some S an
      by (simp add: allocateUpdateOrStashBufferAttribute_def aus_attr_def aus_stash_def aus_allocates_def
            update_conv' delete_conv')
  next
    case N: None
    show ?thesis
    proof (cases "map_of attr key")
      case A: (Some b)
      have "same_scene v (v\<lparr>buffer_array := (buffer_array v)(b := arr)\<rparr>)"
        by (rule same_sceneI [where S="bufferAttributeStash v" and B="(buffer_array v)(b := arr)" and N="next_id v" and A="allocated v"]) simp
      then show ?thesis using Some N A
        by (simp add: allocateUpdateOrStashBufferAttribute_def aus_attr_def aus_stash_def aus_allocates_def
            update_conv' delete_conv' fun_upd_idem)
    next
      case A: None
      have "same_scene v (new_BufferAttribute key arr v)"
        unfolding new_BufferAttribute_def
        by (rule same_sceneI [where S="bufferAttributeStash v" and B="(buffer_array v)(next_id v := arr)" and N="Suc (next_id v)" and A="allocated v @ [(key, next_id v)]"]) simp
      then show ?thesis using Some N A
        by (simp add: allocateUpdateOrStashBufferAttribute_def aus_attr_def aus_stash_def aus_allocates_def
            update_conv' delete_conv' fun_upd_idem) (simp add: new_BufferAttribute_def)
    qed
  qed
qed

lemma excl_aus_pure: "excl_b b \<Longrightarrow> excl_b (aus_pure R key b)"
  by (cases b) (auto simp: excl_def aus_attr_def aus_stash_def split: option.splits)

lemma AUS_book:
  assumes "key \<in> set stashableKeys" "excl_b (book v attr)"
  shows "\<exists>v' attr'. allocateUpdateOrStashBufferAttribute raw key v attr = (None, v', attr') \<and>
           same_scene v v' \<and> book v' attr' = aus_pure (map_of raw) key (book v attr)"
proof -
  have "map_of attr key = None \<or> map_of (bufferAttributeStash v) key = None"
    using assms by (simp add: book_def excl_def)
  from AUS_step [OF this, of raw] show ?thesis
    by (auto simp: book_def)
qed

subsection \<open>The loops over the keys\<close>

lemma update_stashable_book:
  assumes "set ks \<subseteq> set stashableKeys" "excl_b (book v attr)"
  shows "\<exists>v' attr'. update_stashable ks raw v attr = (None, v', attr') \<and>
           same_scene v v' \<and> book v' attr' = fold (aus_pure (map_of raw)) ks (book v attr)"
  using assms
proof (induction ks arbitrary: v attr)
  case Nil
  then show ?case by (simp add: same_scene_refl)
next
  case (Cons key ks)
  from Cons.prems have k: "key \<in> set stashableKeys" and ks: "set ks \<subseteq> set stashableKeys" by auto
  from AUS_book [OF k Cons.prems(2), of raw] obtain v1 attr1 where
    1: "allocateUpdateOrStashBufferAttribute raw key v attr = (None, v1, attr1)"
    and s1: "same_scene v v1" and b1: "book v1 attr1 = aus_pure (map_of raw) key (book v attr)"
    by blast
  have e1: "excl_b (book v1 attr1)" unfolding b1 using Cons.prems(2) by (rule excl_aus_pure)
  from Cons.IH [OF ks e1] obtain v' attr' where
    2: "update_stashable ks raw v1 attr1 = (None, v', attr')"
    and s2: "same_scene v1 v'" and b2: "book v' attr' = fold (aus_pure (map_of raw)) ks (book v1 attr1)"
    by blast
  show ?case
    using 1 2 same_scene_trans [OF s1 s2] b1 b2 by simp
qed

lemma stash_present_keys_book:
  assumes "excl_b (book v attr)"
  shows "\<exists>v' attr' raw'. stash_present_keys ks raw v attr = (None, v', attr', raw') \<and>
           same_scene v v' \<and>
           (map_of raw', book v' attr') = fold spk_pure ks (map_of raw, book v attr)"
  using assms
proof (induction ks arbitrary: v attr raw)
  case Nil
  then show ?case by (simp add: same_scene_refl)
next
  case (Cons key ks)
  show ?case
  proof (cases "key \<in> set stashableKeys")
    case False
    from Cons.IH [OF Cons.prems, of raw] show ?thesis using False by simp
  next
    case True
    from AUS_book [OF True Cons.prems, of raw] obtain v1 attr1 where
      1: "allocateUpdateOrStashBufferAttribute raw key v attr = (None, v1, attr1)"
      and s1: "same_scene v v1" and b1: "book v1 attr1 = aus_pure (map_of raw) key (book v attr)"
      by blast
    have e1: "excl_b (book v1 attr1)" unfolding b1 using Cons.prems by (rule excl_aus_pure)
    from Cons.IH [OF e1, of "AList.delete key raw"] obtain v' attr' raw' where
      2: "stash_present_keys ks (AList.delete key raw) v1 attr1 = (None, v', attr', raw')"
      and s2: "same_scene v1 v'"
      and b2: "(map_of raw', book v' attr') = fold spk_pure ks (map_of (AList.delete key raw), book v1 attr1)"
      by blast
    show ?thesis
      using True 1 2 same_scene_trans [OF s1 s2] b1 b2 by (simp add: delete_conv')
  qed
qed

lemma fold_spk_excl:
  "excl_b b \<Longrightarrow> excl_b (snd (fold spk_pure ks (R, b)))"
  by (induction ks arbitrary: R b) (simp_all add: excl_aus_pure)

lemma fold_aus_excl:
  "excl_b b \<Longrightarrow> excl_b (fold (aus_pure R) ks b)"
  by (induction ks arbitrary: b) (simp_all add: excl_aus_pure)

lemma fold_spk_raw:
  "fst (fold spk_pure ks (R, b)) k = (if k \<in> set ks \<and> k \<in> set stashableKeys then None else R k)"
  by (induction ks arbitrary: R b) auto

lemma allocate_remaining_frame:
  "\<exists>v' attr'. allocate_remaining raw v attr = (v', attr') \<and> same_scene v v' \<and>
      bufferAttributeStash v' = bufferAttributeStash v \<and> next_id v \<le> next_id v' \<and>
      (\<forall>k. k \<notin> fst ` set raw \<longrightarrow> map_of attr' k = map_of attr k)"
proof (induction raw arbitrary: v attr)
  case Nil
  then show ?case by (simp add: same_scene_refl)
next
  case (Cons p raw)
  obtain k arr where p: "p = (k, arr)" by (cases p)
  have s1: "same_scene v (new_BufferAttribute k arr v)"
    unfolding new_BufferAttribute_def
    by (rule same_sceneI [where S="bufferAttributeStash v" and B="(buffer_array v)(next_id v := arr)" and N="Suc (next_id v)" and A="allocated v @ [(k, next_id v)]"]) simp
  from Cons.IH [of "new_BufferAttribute k arr v" "AList.update k (next_id v) attr"]
  obtain v' attr' where
    2: "allocate_remaining raw (new_BufferAttribute k arr v) (AList.update k (next_id v) attr) = (v', attr')"
    and s2: "same_scene (new_BufferAttribute k arr v) v'"
    and st: "bufferAttributeStash v' = bufferAttributeStash (new_BufferAttribute k arr v)"
    and n: "next_id (new_BufferAttribute k arr v) \<le> next_id v'"
    and a: "\<forall>k'. k' \<notin> fst ` set raw \<longrightarrow> map_of attr' k' = map_of (AList.update k (next_id v) attr) k'"
    by blast
  show ?case
    using p 2 same_scene_trans [OF s1 s2] st n a
    by (auto simp: new_BufferAttribute_def update_conv')
qed

subsection \<open>The invariant of the viewer\<close>

lemma stash_exclusive_excl:
  "stash_exclusive v \<longleftrightarrow> excl (map_of (currAttributes v)) (map_of (bufferAttributeStash v))"
  by (simp add: stash_exclusive_def excl_def list_all_iff)

lemma viewer_inv_irrelevant [simp]:
  "viewer_inv (v\<lparr>scalarField := x1\<rparr>) = viewer_inv v"
  "viewer_inv (v\<lparr>vectorField := x2\<rparr>) = viewer_inv v"
  "viewer_inv (v\<lparr>modelMatrixVertices := x3\<rparr>) = viewer_inv v"
  "viewer_inv (v\<lparr>materialLibrary := x4\<rparr>) = viewer_inv v"
  "viewer_inv (v\<lparr>renderingPaused := x5\<rparr>) = viewer_inv v"
  "viewer_inv (v\<lparr>buffer_array := x6\<rparr>) = viewer_inv v"
  "viewer_inv (v\<lparr>meshes := x7\<rparr>) = viewer_inv v"
  "viewer_inv (v\<lparr>wireframeMesh := x8\<rparr>) = viewer_inv v"
  "viewer_inv (v\<lparr>pointsMesh := x9\<rparr>) = viewer_inv v"
  "viewer_inv (v\<lparr>vectorFieldMesh := x10\<rparr>) = viewer_inv v"
  "viewer_inv (v\<lparr>arrowMaterial := x11\<rparr>) = viewer_inv v"
  "viewer_inv (v\<lparr>controls_shaderMaterial := x12\<rparr>) = viewer_inv v"
  "viewer_inv (v\<lparr>ghostMeshes := x13\<rparr>) = viewer_inv v"
  "viewer_inv (v\<lparr>closeLog := x14\<rparr>) = viewer_inv v"
  "viewer_inv (v\<lparr>allocated := x15\<rparr>) = viewer_inv v"
  by (simp_all add: viewer_inv_def stash_exclusive_def ids_fresh_def currAttributes_def
        cong: option.case_cong)

lemma viewer_inv_no_mesh [simp]: "viewer_inv (v\<lparr>currMesh := None\<rparr>)"
  by (simp add: viewer_inv_def stash_exclusive_def ids_fresh_def currAttributes_def list_all_iff)

lemma fold_aus_next:
  "fst (snd (snd b)) \<le> fst (snd (snd (fold (aus_pure R) ks b)))"
proof (induction ks arbitrary: b)
  case Nil
  show ?case by simp
next
  case (Cons k ks)
  have "fst (snd (snd b)) \<le> fst (snd (snd (aus_pure R k b)))" by (cases b) simp
  then show ?case using Cons.IH [of "aus_pure R k b"] by simp
qed

lemma assign_array_explicit:
  "snd (assign_array raw key attr v)
     = v\<lparr>buffer_array := buffer_array (snd (assign_array raw key attr v))\<rparr>"
  by (simp add: assign_array_def split: option.splits)

lemma assign_array_result:
  "\<exists>B. snd (assign_array raw key attr v) = v\<lparr>buffer_array := B\<rparr>"
  by (rule exI [where x="buffer_array (snd (assign_array raw key attr v))"])
    (rule assign_array_explicit)

lemma build_new_inv:
  assumes "currMesh v = None"
  shows "viewer_inv (snd (buildOrUpdateMesh raw mat v))"
proof -
  have e0: "excl_b (book v [])" by (simp add: book_def excl_def)
  from stash_present_keys_book [OF e0, of "map fst raw" raw] obtain v1 attr1 raw1 where
    1: "stash_present_keys (map fst raw) raw v [] = (None, v1, attr1, raw1)"
    and s1: "same_scene v v1"
    and b1: "(map_of raw1, book v1 attr1) = fold spk_pure (map fst raw) (map_of raw, book v [])"
    by blast
  have e1: "excl_b (book v1 attr1)"
    using fold_spk_excl [OF e0, of "map fst raw" "map_of raw"] b1 [symmetric] by simp
  have r1: "map_of raw1 k = None" if "k \<in> set stashableKeys" for k
  proof -
    have "map_of raw1 k = fst (fold spk_pure (map fst raw) (map_of raw, book v [])) k"
      using b1 [symmetric] by simp
    also have "\<dots> = None"
      using that by (simp add: fold_spk_raw map_of_eq_None_iff)
    finally show ?thesis .
  qed
  from allocate_remaining_frame [of raw1 v1 attr1] obtain v2 attr2 where
    2: "allocate_remaining raw1 v1 attr1 = (v2, attr2)"
    and s2: "same_scene v1 v2"
    and st: "bufferAttributeStash v2 = bufferAttributeStash v1"
    and a2: "\<forall>k. k \<notin> fst ` set raw1 \<longrightarrow> map_of attr2 k = map_of attr1 k"
    by blast
  have keep: "map_of attr2 k = map_of attr1 k" if "k \<in> set stashableKeys" for k
    using a2 r1 [OF that] by (simp add: map_of_eq_None_iff)
  have e2: "excl (map_of attr2) (map_of (bufferAttributeStash v2))"
    using e1 keep by (simp add: book_def excl_def st)
  have "buildOrUpdateMesh raw mat v =
          (None, v2\<lparr>geom_attributes := (geom_attributes v2)(next_id v2 := attr2),
                       next_id := Suc (Suc (next_id v2)),
                       currMesh := Some \<lparr>mesh_id = Suc (next_id v2), geometry = next_id v2, mesh_material = mat\<rparr>,
                       meshes := group_add (Suc (next_id v2)) (meshes v2)\<rparr>)"
    unfolding buildOrUpdateMesh_def by (simp add: assms 1 2 Let_def)
  then show ?thesis
    using e2
    by (simp add: viewer_inv_def stash_exclusive_excl ids_fresh_def currAttributes_def)
qed

lemma build_update_inv:
  assumes "currMesh v = Some cm" "viewer_inv v"
  shows "viewer_inv (snd (buildOrUpdateMesh raw mat v))"
proof -
  let ?attr = "geom_attributes v (geometry cm)"
  obtain B1 where p1: "snd (assign_array raw ''position'' ?attr v) = v\<lparr>buffer_array := B1\<rparr>"
    using assign_array_result by blast
  let ?v1 = "v\<lparr>buffer_array := B1\<rparr>"
  obtain B2 where p2: "snd (assign_array raw ''normal'' ?attr ?v1) = ?v1\<lparr>buffer_array := B2\<rparr>"
    using assign_array_result by blast
  let ?v2 = "v\<lparr>buffer_array := B2\<rparr>"
  have p2': "snd (assign_array raw ''normal'' ?attr ?v1) = ?v2" using p2 by simp
  have e: "excl_b (book ?v2 ?attr)"
    using assms by (simp add: book_def viewer_inv_def stash_exclusive_excl currAttributes_def)
  from update_stashable_book [OF subset_refl e, of raw] obtain v3 attr3 where
    3: "update_stashable stashableKeys raw ?v2 ?attr = (None, v3, attr3)"
    and s3: "same_scene ?v2 v3"
    and b3: "book v3 attr3 = fold (aus_pure (map_of raw)) stashableKeys (book ?v2 ?attr)"
    by blast
  have e3: "excl (map_of attr3) (map_of (bufferAttributeStash v3))"
    using fold_aus_excl [OF e, of "map_of raw" stashableKeys] b3 [symmetric] by (simp add: book_def)
  have n3: "next_id v \<le> next_id v3"
    using fold_aus_next [of "book ?v2 ?attr" "map_of raw" stashableKeys] b3 [symmetric]
    by (simp add: book_def)
  have g: "geometry cm < next_id v" using assms by (simp add: viewer_inv_def ids_fresh_def)
  have final: "viewer_inv (v3\<lparr>geom_attributes := (geom_attributes v3)(geometry cm := attr3),
                              currMesh := Some (cm\<lparr>mesh_material := mat\<rparr>)\<rparr>)"
    using e3 n3 g by (simp add: viewer_inv_def stash_exclusive_excl ids_fresh_def currAttributes_def)
  show ?thesis
  proof (cases "fst (assign_array raw ''position'' ?attr v)")
    case (Some e1)
    then have "snd (buildOrUpdateMesh raw mat v) = ?v1"
      using assms(1) p1 by (cases "assign_array raw ''position'' ?attr v")
        (simp add: buildOrUpdateMesh_def and_then_def)
    then show ?thesis using assms(2) by simp
  next
    case None
    then have a1: "assign_array raw ''position'' ?attr v = (None, ?v1)"
      using p1 by (cases "assign_array raw ''position'' ?attr v") simp
    show ?thesis
    proof (cases "fst (assign_array raw ''normal'' ?attr ?v1)")
      case (Some e2)
      then have "snd (buildOrUpdateMesh raw mat v) = ?v2"
        using assms(1) a1 p2' by (cases "assign_array raw ''normal'' ?attr ?v1")
          (simp add: buildOrUpdateMesh_def and_then_def)
      then show ?thesis using assms(2) by simp
    next
      case N2: None
      then have a2: "assign_array raw ''normal'' ?attr ?v1 = (None, ?v2)"
        using p2' by (cases "assign_array raw ''normal'' ?attr ?v1") simp
      have "snd (buildOrUpdateMesh raw mat v) =
              v3\<lparr>geom_attributes := (geom_attributes v3)(geometry cm := attr3),
                 currMesh := Some (cm\<lparr>mesh_material := mat\<rparr>)\<rparr>"
        using assms(1) a1 a2 3 by (simp add: buildOrUpdateMesh_def and_then_def)
      then show ?thesis using final by simp
    qed
  qed
qed

lemma build_inv: "viewer_inv v \<Longrightarrow> viewer_inv (snd (buildOrUpdateMesh raw mat v))"
  by (cases "currMesh v") (simp_all add: build_new_inv build_update_inv)

lemma and_then_snd:
  assumes "P (snd r)" and "\<And>s. P s \<Longrightarrow> P (snd (f s))"
  shows "P (snd (and_then r f))"
proof (cases r)
  case (Pair e s)
  then show ?thesis using assms by (cases e) (simp_all add: and_then_def)
qed

lemma modelMatrixStep_inv: "viewer_inv v \<Longrightarrow> viewer_inv (snd (modelMatrixStep a v))"
  by (simp add: modelMatrixStep_def)

lemma ghost_events_cong:
  "geom_attributes v' = geom_attributes v \<Longrightarrow> wireframeMesh v' = wireframeMesh v
     \<Longrightarrow> pointsMesh v' = pointsMesh v \<Longrightarrow> ghost_events v' = ghost_events v"
  by (simp add: ghost_events_def buffers_of_def fun_eq_iff)

lemma cleanMesh_head:
  assumes "ghostMeshes v = m # rest"
  shows "cleanMesh m v = (None, v\<lparr>ghostMeshes := rest, closeLog := closeLog v @ ghost_events v m\<rparr>)"
  using assms
  by (simp add: cleanMesh_def ghost_remove_def Let_def ghost_events_def buffers_of_def
        case_prod_beta comp_def)

lemma cleanMeshes_loop_run:
  "ghostMeshes v = ms \<Longrightarrow>
     cleanMeshes_loop ms v
       = (None, v\<lparr>ghostMeshes := [], closeLog := closeLog v @ concat (map (ghost_events v) ms)\<rparr>)"
proof (induction ms arbitrary: v)
  case Nil
  then have "v\<lparr>ghostMeshes := [], closeLog := closeLog v\<rparr> = v" by simp
  then show ?case by simp
next
  case (Cons m ms)
  let ?v' = "v\<lparr>ghostMeshes := ms, closeLog := closeLog v @ ghost_events v m\<rparr>"
  have ge: "ghost_events ?v' = ghost_events v" by (rule ghost_events_cong) simp_all
  have "cleanMeshes_loop (m # ms) v = cleanMeshes_loop ms ?v'"
    by (simp add: cleanMesh_head [OF Cons.prems] and_then_def)
  also have "\<dots> = (None, ?v'\<lparr>ghostMeshes := [],
                        closeLog := closeLog ?v' @ concat (map (ghost_events ?v') ms)\<rparr>)"
    by (rule Cons.IH) simp
  finally show ?case by (simp add: ge)
qed

lemma cleanMeshes_run:
  "cleanMeshes v
     = (None, v\<lparr>ghostMeshes := [],
                closeLog := closeLog v @ concat (map (ghost_events v) (ghostMeshes v))\<rparr>)"
  unfolding cleanMeshes_def by (rule cleanMeshes_loop_run) simp

lemma cleanMeshes_inv: "viewer_inv (snd (cleanMeshes v)) = viewer_inv v"
  by (simp add: cleanMeshes_run)

lemma ghostVectorField_no_mesh:
  "currMesh v = None \<Longrightarrow> currMesh (snd (ghostVectorField m v)) = None"
  by (simp add: ghostVectorField_def Let_def split: option.splits sum.splits)

lemma no_mesh_inv: "currMesh v = None \<Longrightarrow> viewer_inv v"
  by (simp add: viewer_inv_def stash_exclusive_def ids_fresh_def currAttributes_def list_all_iff)

lemma ghostOrClean_inv: "viewer_inv v \<Longrightarrow> viewer_inv (snd (ghostOrClean a v))"
proof (cases "if preserveExisting a then currMesh v else None")
  case None
  assume "viewer_inv v"
  then show ?thesis using None by (simp add: ghostOrClean_def cleanMeshes_inv)
next
  case (Some oldMesh)
  have "currMesh (snd (ghostOrClean a v)) = None"
    using Some
    by (simp add: ghostOrClean_def Let_def ghostVectorField_no_mesh
          split: prod.splits option.splits sum.splits)
  then show ?thesis by (rule no_mesh_inv)
qed

lemma repointOverlays_inv: "viewer_inv (repointOverlays v) = viewer_inv v"
  by (simp add: repointOverlays_def split: option.splits)

lemma getArrows_inv:
  assumes "viewer_inv v"
  shows "viewer_inv (snd (getArrows vf mat existing v))"
proof (cases existing)
  case (Some m)
  then show ?thesis using assms by (simp add: getArrows_def split: option.splits)
next
  case None
  show ?thesis
    using assms None
    by (auto simp: getArrows_def Let_def viewer_inv_def stash_exclusive_def ids_fresh_def
          currAttributes_def split: option.splits)
qed

lemma vectorFieldStep_inv:
  assumes "viewer_inv v"
  shows "viewer_inv (snd (vectorFieldStep a v))"
proof (cases "vectorField v")
  case None
  then show ?thesis using assms by (simp add: vectorFieldStep_def split: option.splits sum.splits)
next
  case (Some vf)
  show ?thesis
    using Some assms getArrows_inv [OF assms, of vf "arrowMaterial v" "vectorFieldMesh v"]
    by (auto simp: vectorFieldStep_def Let_def split: option.splits prod.splits)
qed

lemma setGeometry_inv:
  assumes "viewer_inv v"
  shows "viewer_inv (snd (setGeometry v a))"
  unfolding setGeometry_def
proof (rule and_then_snd [where P=viewer_inv])
  show "viewer_inv (snd (modelMatrixStep a (v\<lparr>scalarField := scalarField_arg a, vectorField := vectorField_arg a\<rparr>)))"
    using assms by (simp add: modelMatrixStep_inv)
next
  fix v1 assume v1: "viewer_inv v1"
  show "viewer_inv (snd (case rawAttributes a of
         Inl e \<Rightarrow> (Some e, v1)
       | Inr (attrRaw, useVertexColors) \<Rightarrow>
           and_then (ghostOrClean a v1) (\<lambda>v2.
             case material (materialLibrary v2) useVertexColors (map_option dataTex (textureMap a)) of
               (mat, lib) \<Rightarrow>
                 (let v3 = v2\<lparr>materialLibrary := lib\<rparr>;
                      v4 = (if avoidRedrawFlicker v3 then v3\<lparr>renderingPaused := True\<rparr> else v3)
                  in and_then (buildOrUpdateMesh attrRaw mat v4) (\<lambda>v5.
                     and_then (vectorFieldStep a (repointOverlays v5)) (\<lambda>v6.
                       (None, if avoidRedrawFlicker v6 then v6\<lparr>renderingPaused := False\<rparr> else v6)))))))"
  proof (cases "rawAttributes a")
    case (Inl e)
    then show ?thesis using v1 by simp
  next
    case (Inr p)
    obtain attrRaw useVertexColors where p: "p = (attrRaw, useVertexColors)" by (cases p)
    have "viewer_inv (snd (and_then (ghostOrClean a v1) (\<lambda>v2.
             case material (materialLibrary v2) useVertexColors (map_option dataTex (textureMap a)) of
               (mat, lib) \<Rightarrow>
                 (let v3 = v2\<lparr>materialLibrary := lib\<rparr>;
                      v4 = (if avoidRedrawFlicker v3 then v3\<lparr>renderingPaused := True\<rparr> else v3)
                  in and_then (buildOrUpdateMesh attrRaw mat v4) (\<lambda>v5.
                     and_then (vectorFieldStep a (repointOverlays v5)) (\<lambda>v6.
                       (None, if avoidRedrawFlicker v6 then v6\<lparr>renderingPaused := False\<rparr> else v6)))))))"
    proof (rule and_then_snd [where P=viewer_inv])
      show "viewer_inv (snd (ghostOrClean a v1))" using v1 by (rule ghostOrClean_inv)
    next
      fix v2 assume v2: "viewer_inv v2"
      obtain mat lib where m: "material (materialLibrary v2) useVertexColors (map_option dataTex (textureMap a)) = (mat, lib)"
        by (cases "material (materialLibrary v2) useVertexColors (map_option dataTex (textureMap a))")
      let ?v4 = "if avoidRedrawFlicker (v2\<lparr>materialLibrary := lib\<rparr>)
                 then v2\<lparr>materialLibrary := lib, renderingPaused := True\<rparr> else v2\<lparr>materialLibrary := lib\<rparr>"
      have v4: "viewer_inv ?v4" using v2 by simp
      have "viewer_inv (snd (and_then (buildOrUpdateMesh attrRaw mat ?v4) (\<lambda>v5.
                     and_then (vectorFieldStep a (repointOverlays v5)) (\<lambda>v6.
                       (None, if avoidRedrawFlicker v6 then v6\<lparr>renderingPaused := False\<rparr> else v6)))))"
      proof (rule and_then_snd [where P=viewer_inv])
        show "viewer_inv (snd (buildOrUpdateMesh attrRaw mat ?v4))" using v4 by (rule build_inv)
      next
        fix v5 assume v5: "viewer_inv v5"
        show "viewer_inv (snd (and_then (vectorFieldStep a (repointOverlays v5)) (\<lambda>v6.
                       (None, if avoidRedrawFlicker v6 then v6\<lparr>renderingPaused := False\<rparr> else v6))))"
        proof (rule and_then_snd [where P=viewer_inv])
          show "viewer_inv (snd (vectorFieldStep a (repointOverlays v5)))"
            using v5 by (simp add: vectorFieldStep_inv repointOverlays_inv)
        next
          fix v6 assume "viewer_inv v6"
          then show "viewer_inv (snd (None, if avoidRedrawFlicker v6 then v6\<lparr>renderingPaused := False\<rparr> else v6))"
            by simp
        qed
      qed
      then show "viewer_inv (snd (case material (materialLibrary v2) useVertexColors (map_option dataTex (textureMap a)) of
               (mat, lib) \<Rightarrow>
                 (let v3 = v2\<lparr>materialLibrary := lib\<rparr>;
                      v4 = (if avoidRedrawFlicker v3 then v3\<lparr>renderingPaused := True\<rparr> else v3)
                  in and_then (buildOrUpdateMesh attrRaw mat v4) (\<lambda>v5.
                     and_then (vectorFieldStep a (repointOverlays v5)) (\<lambda>v6.
                       (None, if avoidRedrawFlicker v6 then v6\<lparr>renderingPaused := False\<rparr> else v6))))))"
        by (simp add: m Let_def)
    qed
    then show ?thesis using Inr p by simp
  qed
qed

lemma fields_inv: "viewer_inv (ViewerBase_fields lm)"
  by (rule no_mesh_inv) (simp add: ViewerBase_fields_def)

lemma setGeometry_calls_inv: "viewer_inv v \<Longrightarrow> viewer_inv (setGeometry_calls v as)"
  by (induction as arbitrary: v) (simp_all add: setGeometry_inv)

subsection \<open>The steps of setGeometry\<close>

lemma setGeometry_unfold:
  "setGeometry v a =
     and_then (modelMatrixStep a (frame_start v a)) (\<lambda>v1.
       case rawAttributes a of
         Inl e \<Rightarrow> (Some e, v1)
       | Inr (attrRaw, useVertexColors) \<Rightarrow>
           and_then (ghostOrClean a v1) (\<lambda>v2.
             case material (materialLibrary v2) useVertexColors (map_option dataTex (textureMap a)) of
               (mat, lib) \<Rightarrow>
                  and_then (buildOrUpdateMesh attrRaw mat (pause (v2\<lparr>materialLibrary := lib\<rparr>))) (\<lambda>v5.
                     and_then (vectorFieldStep a (repointOverlays v5)) (\<lambda>v6. (None, resume v6)))))"
  unfolding setGeometry_def frame_start_def pause_def resume_def Let_def ..

lemma setGeometry_cases [consumes 0, case_names mm_fail raw_fail ghost_fail build_fail vf_fail ok]:
  assumes "\<And>e v1. modelMatrixStep a (frame_start v a) = (Some e, v1) \<Longrightarrow> setGeometry v a = (Some e, v1) \<Longrightarrow> thesis"
    and "\<And>e v1. modelMatrixStep a (frame_start v a) = (None, v1) \<Longrightarrow> rawAttributes a = Inl e
           \<Longrightarrow> setGeometry v a = (Some e, v1) \<Longrightarrow> thesis"
    and "\<And>e v1 v2 raw vc. modelMatrixStep a (frame_start v a) = (None, v1) \<Longrightarrow> rawAttributes a = Inr (raw, vc)
           \<Longrightarrow> ghostOrClean a v1 = (Some e, v2) \<Longrightarrow> setGeometry v a = (Some e, v2) \<Longrightarrow> thesis"
    and "\<And>e v1 v2 raw vc mat lib v5. modelMatrixStep a (frame_start v a) = (None, v1) \<Longrightarrow> rawAttributes a = Inr (raw, vc)
           \<Longrightarrow> ghostOrClean a v1 = (None, v2)
           \<Longrightarrow> material (materialLibrary v2) vc (map_option dataTex (textureMap a)) = (mat, lib)
           \<Longrightarrow> buildOrUpdateMesh raw mat (pause (v2\<lparr>materialLibrary := lib\<rparr>)) = (Some e, v5)
           \<Longrightarrow> setGeometry v a = (Some e, v5) \<Longrightarrow> thesis"
    and "\<And>e v1 v2 raw vc mat lib v5 v6. modelMatrixStep a (frame_start v a) = (None, v1) \<Longrightarrow> rawAttributes a = Inr (raw, vc)
           \<Longrightarrow> ghostOrClean a v1 = (None, v2)
           \<Longrightarrow> material (materialLibrary v2) vc (map_option dataTex (textureMap a)) = (mat, lib)
           \<Longrightarrow> buildOrUpdateMesh raw mat (pause (v2\<lparr>materialLibrary := lib\<rparr>)) = (None, v5)
           \<Longrightarrow> vectorFieldStep a (repointOverlays v5) = (Some e, v6)
           \<Longrightarrow> setGeometry v a = (Some e, v6) \<Longrightarrow> thesis"
    and "\<And>v1 v2 raw vc mat lib v5 v6. modelMatrixStep a (frame_start v a) = (None, v1) \<Longrightarrow> rawAttributes a = Inr (raw, vc)
           \<Longrightarrow> ghostOrClean a v1 = (None, v2)
           \<Longrightarrow> material (materialLibrary v2) vc (map_option dataTex (textureMap a)) = (mat, lib)
           \<Longrightarrow> buildOrUpdateMesh raw mat (pause (v2\<lparr>materialLibrary := lib\<rparr>)) = (None, v5)
           \<Longrightarrow> vectorFieldStep a (repointOverlays v5) = (None, v6)
           \<Longrightarrow> setGeometry v a = (None, resume v6) \<Longrightarrow> thesis"
  shows thesis
proof (cases "modelMatrixStep a (frame_start v a)")
  case (Pair e1 v1)
  show ?thesis
  proof (cases e1)
    case (Some e)
    then show ?thesis using Pair assms(1) by (simp add: setGeometry_unfold and_then_def)
  next
    case None
    note mm = Pair [unfolded None]
    show ?thesis
    proof (cases "rawAttributes a")
      case (Inl e)
      then show ?thesis using mm assms(2) by (simp add: setGeometry_unfold and_then_def)
    next
      case (Inr p)
      obtain raw vc where p: "p = (raw, vc)" by (cases p)
      note raw = Inr [unfolded p]
      obtain e2 v2 where g: "ghostOrClean a v1 = (e2, v2)" by (cases "ghostOrClean a v1")
      show ?thesis
      proof (cases e2)
        case (Some e)
        then show ?thesis using mm raw g assms(3) by (simp add: setGeometry_unfold and_then_def)
      next
        case None
        note g = g [unfolded None]
        obtain mat lib where m: "material (materialLibrary v2) vc (map_option dataTex (textureMap a)) = (mat, lib)"
          by (cases "material (materialLibrary v2) vc (map_option dataTex (textureMap a))")
        obtain e5 v5 where b: "buildOrUpdateMesh raw mat (pause (v2\<lparr>materialLibrary := lib\<rparr>)) = (e5, v5)"
          by (cases "buildOrUpdateMesh raw mat (pause (v2\<lparr>materialLibrary := lib\<rparr>))")
        show ?thesis
        proof (cases e5)
          case (Some e)
          then show ?thesis using mm raw g m b assms(4) by (simp add: setGeometry_unfold and_then_def)
        next
          case None
          note b = b [unfolded None]
          obtain e6 v6 where f: "vectorFieldStep a (repointOverlays v5) = (e6, v6)"
            by (cases "vectorFieldStep a (repointOverlays v5)")
          show ?thesis
          proof (cases e6)
            case (Some e)
            then show ?thesis using mm raw g m b f assms(5) by (simp add: setGeometry_unfold and_then_def)
          next
            case None
            then show ?thesis using mm raw g m b f assms(6) by (simp add: setGeometry_unfold and_then_def)
          qed
        qed
      qed
    qed
  qed
qed

subsection \<open>The bookkeeping state\<close>

lemma b_simps [simp]: "bA (A, S, n, L) = A" "bS (A, S, n, L) = S" "bN (A, S, n, L) = n" "bL (A, S, n, L) = L"
  by (simp_all add: bA_def bS_def bN_def bL_def)

lemma book_simps [simp]:
  "bA (book v attr) = map_of attr" "bS (book v attr) = map_of (bufferAttributeStash v)"
  "bN (book v attr) = next_id v" "bL (book v attr) = allocated v"
  by (simp_all add: book_def)

lemma aus_pure_other:
  "k \<noteq> key \<Longrightarrow> bA (aus_pure R key b) k = bA b k \<and> bS (aus_pure R key b) k = bS b k"
  by (cases b) (simp add: aus_attr_def aus_stash_def split: option.splits)

lemma aus_pure_known:
  "bA b k \<noteq> None \<or> bS b k \<noteq> None \<Longrightarrow> bA (aus_pure R key b) k \<noteq> None \<or> bS (aus_pure R key b) k \<noteq> None"
  by (cases b) (auto simp: aus_attr_def aus_stash_def split: option.splits if_splits)

lemma aus_pure_self:
  "R key \<noteq> None \<Longrightarrow> bA (aus_pure R key b) key \<noteq> None"
  by (cases b) (simp add: aus_attr_def)

lemma aus_pure_noalloc:
  "R key \<noteq> None \<longrightarrow> bA b key \<noteq> None \<or> bS b key \<noteq> None
     \<Longrightarrow> bL (aus_pure R key b) = bL b \<and> bN (aus_pure R key b) = bN b"
  by (cases b) (auto simp: aus_allocates_def)

lemma aus_pure_log:
  "\<exists>M. bL (aus_pure R key b) = bL b @ M \<and> fst ` set M \<subseteq> {key} \<and>
       (M \<noteq> [] \<longrightarrow> R key \<noteq> None \<and> bA b key = None \<and> bS b key = None)"
  by (cases b) (auto simp: aus_allocates_def)

lemma fold_aus_other:
  "k \<notin> set ks \<Longrightarrow> bA (fold (aus_pure R) ks b) k = bA b k \<and> bS (fold (aus_pure R) ks b) k = bS b k"
  by (induction ks arbitrary: b) (auto simp: aus_pure_other)

lemma fold_aus_known:
  "bA b k \<noteq> None \<or> bS b k \<noteq> None
     \<Longrightarrow> bA (fold (aus_pure R) ks b) k \<noteq> None \<or> bS (fold (aus_pure R) ks b) k \<noteq> None"
proof (induction ks arbitrary: b)
  case Nil
  then show ?case by simp
next
  case (Cons key ks)
  from aus_pure_known [OF Cons.prems, of R key] Cons.IH [of "aus_pure R key b"]
  show ?case by simp
qed

lemma fold_aus_live:
  "bA b k \<noteq> None \<Longrightarrow> R k \<noteq> None \<Longrightarrow> bA (fold (aus_pure R) ks b) k \<noteq> None"
proof (induction ks arbitrary: b)
  case Nil
  then show ?case by simp
next
  case (Cons key ks)
  have "bA (aus_pure R key b) k \<noteq> None"
    using Cons.prems aus_pure_other [of k key R b] aus_pure_self [of R key b] by (cases "k = key") auto
  from Cons.IH [OF this Cons.prems(2)] show ?case by simp
qed

lemma fold_aus_after:
  "k \<in> set ks \<Longrightarrow> R k \<noteq> None \<Longrightarrow> bA (fold (aus_pure R) ks b) k \<noteq> None"
proof (induction ks arbitrary: b)
  case Nil
  then show ?case by simp
next
  case (Cons key ks)
  show ?case
  proof (cases "k = key")
    case True
    have "bA (aus_pure R key b) k \<noteq> None" using True Cons.prems(2) by (simp add: aus_pure_self)
    from fold_aus_live [of "aus_pure R key b" k R ks, OF this Cons.prems(2)] show ?thesis by simp
  next
    case False
    then have "k \<in> set ks" using Cons.prems(1) by simp
    from Cons.IH [OF this Cons.prems(2)] show ?thesis by simp
  qed
qed

lemma fold_aus_noalloc:
  "\<forall>k\<in>set ks. R k \<noteq> None \<longrightarrow> bA b k \<noteq> None \<or> bS b k \<noteq> None
     \<Longrightarrow> bL (fold (aus_pure R) ks b) = bL b \<and> bN (fold (aus_pure R) ks b) = bN b"
proof (induction ks arbitrary: b)
  case Nil
  then show ?case by simp
next
  case (Cons key ks)
  have 1: "bL (aus_pure R key b) = bL b \<and> bN (aus_pure R key b) = bN b"
    using Cons.prems by (intro aus_pure_noalloc) simp
  have 2: "\<forall>k\<in>set ks. R k \<noteq> None \<longrightarrow> bA (aus_pure R key b) k \<noteq> None \<or> bS (aus_pure R key b) k \<noteq> None"
    using Cons.prems aus_pure_known [of b _ R key] by auto
  from Cons.IH [OF 2] 1 show ?case by simp
qed

lemma fold_aus_reuse:
  assumes "(bS b key = Some i \<and> bA b key = None \<and> key \<in> set ks) \<or> (bS b key = None \<and> bA b key = Some i)"
    and "R key \<noteq> None"
  shows "bA (fold (aus_pure R) ks b) key = Some i \<and> bS (fold (aus_pure R) ks b) key = None \<and>
         (\<exists>M. bL (fold (aus_pure R) ks b) = bL b @ M \<and> key \<notin> fst ` set M)"
  using assms(1)
proof (induction ks arbitrary: b)
  case Nil
  then show ?case by simp
next
  case (Cons k ks)
  have step: "(bS (aus_pure R k b) key = Some i \<and> bA (aus_pure R k b) key = None \<and> key \<in> set ks)
                \<or> (bS (aus_pure R k b) key = None \<and> bA (aus_pure R k b) key = Some i)"
  proof (cases "k = key")
    case True
    then show ?thesis using Cons.prems assms(2)
      by (cases b) (auto simp: aus_attr_def aus_stash_def)
  next
    case False
    then show ?thesis using Cons.prems aus_pure_other [of key k R b] by auto
  qed
  from aus_pure_log [of R k b] obtain M1 where
    m1: "bL (aus_pure R k b) = bL b @ M1" "fst ` set M1 \<subseteq> {k}"
        "M1 \<noteq> [] \<longrightarrow> R k \<noteq> None \<and> bA b k = None \<and> bS b k = None"
    by blast
  have nk: "key \<notin> fst ` set M1"
  proof
    assume "key \<in> fst ` set M1"
    then have "M1 \<noteq> []" "k = key" using m1(2) by auto
    then show False using m1(3) Cons.prems by auto
  qed
  from Cons.IH [OF step] obtain M2 where
    r: "bA (fold (aus_pure R) ks (aus_pure R k b)) key = Some i"
       "bS (fold (aus_pure R) ks (aus_pure R k b)) key = None"
       "bL (fold (aus_pure R) ks (aus_pure R k b)) = bL (aus_pure R k b) @ M2" "key \<notin> fst ` set M2"
    by blast
  have "bL (fold (aus_pure R) (k # ks) b) = bL b @ (M1 @ M2) \<and> key \<notin> fst ` set (M1 @ M2)"
    using r(3,4) m1(1) nk by auto
  then show ?case using r(1,2) by (simp del: append_assoc)
qed

subsection \<open>What each step leaves unchanged\<close>

lemma modelMatrixStep_fields [simp]:
  "bufferAttributeStash (snd (modelMatrixStep a v)) = bufferAttributeStash v"
  "currMesh (snd (modelMatrixStep a v)) = currMesh v"
  "geom_attributes (snd (modelMatrixStep a v)) = geom_attributes v"
  "next_id (snd (modelMatrixStep a v)) = next_id v"
  "allocated (snd (modelMatrixStep a v)) = allocated v"
  "ghostMeshes (snd (modelMatrixStep a v)) = ghostMeshes v"
  "closeLog (snd (modelMatrixStep a v)) = closeLog v"
  "vectorFieldMesh (snd (modelMatrixStep a v)) = vectorFieldMesh v"
  "wireframeMesh (snd (modelMatrixStep a v)) = wireframeMesh v"
  "pointsMesh (snd (modelMatrixStep a v)) = pointsMesh v"
  "meshes (snd (modelMatrixStep a v)) = meshes v"
  by (simp_all add: modelMatrixStep_def)

lemma frame_start_fields [simp]:
  "bufferAttributeStash (frame_start v a) = bufferAttributeStash v"
  "currMesh (frame_start v a) = currMesh v"
  "geom_attributes (frame_start v a) = geom_attributes v"
  "next_id (frame_start v a) = next_id v"
  "allocated (frame_start v a) = allocated v"
  "ghostMeshes (frame_start v a) = ghostMeshes v"
  "closeLog (frame_start v a) = closeLog v"
  "vectorFieldMesh (frame_start v a) = vectorFieldMesh v"
  "wireframeMesh (frame_start v a) = wireframeMesh v"
  "pointsMesh (frame_start v a) = pointsMesh v"
  "meshes (frame_start v a) = meshes v"
  by (simp_all add: frame_start_def)

lemma pause_fields [simp]:
  "bufferAttributeStash (pause v) = bufferAttributeStash v"
  "currMesh (pause v) = currMesh v"
  "geom_attributes (pause v) = geom_attributes v"
  "next_id (pause v) = next_id v"
  "allocated (pause v) = allocated v"
  "ghostMeshes (pause v) = ghostMeshes v"
  "closeLog (pause v) = closeLog v"
  "vectorFieldMesh (pause v) = vectorFieldMesh v"
  "wireframeMesh (pause v) = wireframeMesh v"
  "pointsMesh (pause v) = pointsMesh v"
  "meshes (pause v) = meshes v"
  by (simp_all add: pause_def)

lemma resume_fields [simp]:
  "bufferAttributeStash (resume v) = bufferAttributeStash v"
  "currMesh (resume v) = currMesh v"
  "geom_attributes (resume v) = geom_attributes v"
  "next_id (resume v) = next_id v"
  "allocated (resume v) = allocated v"
  "ghostMeshes (resume v) = ghostMeshes v"
  "closeLog (resume v) = closeLog v"
  "vectorFieldMesh (resume v) = vectorFieldMesh v"
  "wireframeMesh (resume v) = wireframeMesh v"
  "pointsMesh (resume v) = pointsMesh v"
  "meshes (resume v) = meshes v"
  by (simp_all add: resume_def)

lemma repointOverlays_fields [simp]:
  "bufferAttributeStash (repointOverlays v) = bufferAttributeStash v"
  "currMesh (repointOverlays v) = currMesh v"
  "geom_attributes (repointOverlays v) = geom_attributes v"
  "next_id (repointOverlays v) = next_id v"
  "allocated (repointOverlays v) = allocated v"
  "ghostMeshes (repointOverlays v) = ghostMeshes v"
  "closeLog (repointOverlays v) = closeLog v"
  "vectorFieldMesh (repointOverlays v) = vectorFieldMesh v"
  "meshes (repointOverlays v) = meshes v"
  "map_option mesh_id (wireframeMesh (repointOverlays v)) = map_option mesh_id (wireframeMesh v)"
  "map_option mesh_id (pointsMesh (repointOverlays v)) = map_option mesh_id (pointsMesh v)"
  by (simp_all add: repointOverlays_def option.map_comp comp_def split: option.splits)

lemma cleanMeshes_fields [simp]:
  "fst (cleanMeshes v) = None"
  "bufferAttributeStash (snd (cleanMeshes v)) = bufferAttributeStash v"
  "currMesh (snd (cleanMeshes v)) = currMesh v"
  "geom_attributes (snd (cleanMeshes v)) = geom_attributes v"
  "next_id (snd (cleanMeshes v)) = next_id v"
  "allocated (snd (cleanMeshes v)) = allocated v"
  "vectorFieldMesh (snd (cleanMeshes v)) = vectorFieldMesh v"
  "wireframeMesh (snd (cleanMeshes v)) = wireframeMesh v"
  "pointsMesh (snd (cleanMeshes v)) = pointsMesh v"
  "meshes (snd (cleanMeshes v)) = meshes v"
  by (simp_all add: cleanMeshes_run)

lemma ghostVectorField_fields [simp]:
  "bufferAttributeStash (snd (ghostVectorField m v)) = bufferAttributeStash v"
  "currMesh (snd (ghostVectorField m v)) = currMesh v"
  "geom_attributes (snd (ghostVectorField m v)) = geom_attributes v"
  "next_id (snd (ghostVectorField m v)) = next_id v"
  "allocated (snd (ghostVectorField m v)) = allocated v"
  "closeLog (snd (ghostVectorField m v)) = closeLog v"
  "wireframeMesh (snd (ghostVectorField m v)) = wireframeMesh v"
  "pointsMesh (snd (ghostVectorField m v)) = pointsMesh v"
  by (simp_all add: ghostVectorField_def Let_def split: option.splits sum.splits)

lemma ghostOrClean_fields [simp]:
  "bufferAttributeStash (snd (ghostOrClean a v)) = bufferAttributeStash v"
  "geom_attributes (snd (ghostOrClean a v)) = geom_attributes v"
  "next_id (snd (ghostOrClean a v)) = next_id v"
  "allocated (snd (ghostOrClean a v)) = allocated v"
  "wireframeMesh (snd (ghostOrClean a v)) = wireframeMesh v"
  "pointsMesh (snd (ghostOrClean a v)) = pointsMesh v"
  "currMesh (snd (ghostOrClean a v)) = (if preserveExisting a then None else currMesh v)"
  by (simp_all add: ghostOrClean_def Let_def split: option.splits prod.splits sum.splits)

lemma getArrows_fields [simp]:
  "bufferAttributeStash (snd (getArrows vf mat ex v)) = bufferAttributeStash v"
  "currMesh (snd (getArrows vf mat ex v)) = currMesh v"
  "allocated (snd (getArrows vf mat ex v)) = allocated v"
  "ghostMeshes (snd (getArrows vf mat ex v)) = ghostMeshes v"
  "closeLog (snd (getArrows vf mat ex v)) = closeLog v"
  "wireframeMesh (snd (getArrows vf mat ex v)) = wireframeMesh v"
  "pointsMesh (snd (getArrows vf mat ex v)) = pointsMesh v"
  "next_id v \<le> next_id (snd (getArrows vf mat ex v))"
  "g < next_id v \<Longrightarrow> geom_attributes (snd (getArrows vf mat ex v)) g = geom_attributes v g"
  by (simp_all add: getArrows_def Let_def split: option.splits)

lemma vectorFieldStep_fields [simp]:
  "bufferAttributeStash (snd (vectorFieldStep a v)) = bufferAttributeStash v"
  "currMesh (snd (vectorFieldStep a v)) = currMesh v"
  "allocated (snd (vectorFieldStep a v)) = allocated v"
  "ghostMeshes (snd (vectorFieldStep a v)) = ghostMeshes v"
  "closeLog (snd (vectorFieldStep a v)) = closeLog v"
  "wireframeMesh (snd (vectorFieldStep a v)) = wireframeMesh v"
  "pointsMesh (snd (vectorFieldStep a v)) = pointsMesh v"
  "next_id v \<le> next_id (snd (vectorFieldStep a v))"
  "g < next_id v \<Longrightarrow> geom_attributes (snd (vectorFieldStep a v)) g = geom_attributes v g"
  by (simp_all add: vectorFieldStep_def Let_def case_prod_beta split: option.splits sum.splits)

lemma fold_spk_reuse:
  assumes "distinct ks"
    and "(R key \<noteq> None \<and> bS b key = Some i \<and> bA b key = None \<and> key \<in> set ks \<and> key \<in> set stashableKeys)
           \<or> (bS b key = None \<and> bA b key = Some i \<and> key \<notin> set ks)"
  shows "bA (snd (fold spk_pure ks (R, b))) key = Some i \<and>
         bS (snd (fold spk_pure ks (R, b))) key = None \<and>
         (\<exists>M. bL (snd (fold spk_pure ks (R, b))) = bL b @ M \<and> key \<notin> fst ` set M)"
  using assms
proof (induction ks arbitrary: R b)
  case Nil
  then show ?case by simp
next
  case (Cons k ks)
  have d: "distinct ks" and nk: "k \<notin> set ks" using Cons.prems(1) by auto
  show ?case
  proof (cases "k \<in> set stashableKeys")
    case False
    then have kk: "k \<noteq> key" using Cons.prems(2) by auto
    have pre: "(R key \<noteq> None \<and> bS b key = Some i \<and> bA b key = None \<and> key \<in> set ks \<and> key \<in> set stashableKeys)
           \<or> (bS b key = None \<and> bA b key = Some i \<and> key \<notin> set ks)"
      using Cons.prems(2) kk by auto
    from Cons.IH [of R b, OF d pre] show ?thesis using False by simp
  next
    case True
    let ?R = "R(k := None)" and ?b = "aus_pure R k b"
    have pre: "(?R key \<noteq> None \<and> bS ?b key = Some i \<and> bA ?b key = None \<and> key \<in> set ks \<and> key \<in> set stashableKeys)
           \<or> (bS ?b key = None \<and> bA ?b key = Some i \<and> key \<notin> set ks)"
    proof (cases "k = key")
      case T: True
      then show ?thesis using Cons.prems(2) nk
        by (cases b) (auto simp: aus_attr_def aus_stash_def)
    next
      case F: False
      then show ?thesis using Cons.prems(2) aus_pure_other [of key k R b] by auto
    qed
    from aus_pure_log [of R k b] obtain M1 where
      m1: "bL ?b = bL b @ M1" "fst ` set M1 \<subseteq> {k}"
          "M1 \<noteq> [] \<longrightarrow> R k \<noteq> None \<and> bA b k = None \<and> bS b k = None"
      by blast
    have nk1: "key \<notin> fst ` set M1"
    proof
      assume "key \<in> fst ` set M1"
      then have "M1 \<noteq> []" "k = key" using m1(2) by auto
      then show False using m1(3) Cons.prems(2) by auto
    qed
    from Cons.IH [of ?R ?b, OF d pre] obtain M2 where
      r: "bA (snd (fold spk_pure ks (?R, ?b))) key = Some i"
         "bS (snd (fold spk_pure ks (?R, ?b))) key = None"
         "bL (snd (fold spk_pure ks (?R, ?b))) = bL ?b @ M2" "key \<notin> fst ` set M2"
      by blast
    have "bL (snd (fold spk_pure (k # ks) (R, b))) = bL b @ (M1 @ M2) \<and> key \<notin> fst ` set (M1 @ M2)"
      using r(3,4) m1(1) nk1 True by auto
    then show ?thesis using r(1,2) True by (simp del: append_assoc)
  qed
qed

lemma allocate_remaining_log:
  "\<exists>M. allocated (fst (allocate_remaining raw v attr)) = allocated v @ M \<and> fst ` set M \<subseteq> fst ` set raw"
proof (induction raw arbitrary: v attr)
  case Nil
  then show ?case by simp
next
  case (Cons p raw)
  obtain k arr where p: "p = (k, arr)" by (cases p)
  from Cons.IH [of "new_BufferAttribute k arr v" "AList.update k (next_id v) attr"] obtain M where
    m: "allocated (fst (allocate_remaining raw (new_BufferAttribute k arr v) (AList.update k (next_id v) attr)))
          = allocated (new_BufferAttribute k arr v) @ M" "fst ` set M \<subseteq> fst ` set raw"
    by blast
  have "allocated (fst (allocate_remaining (p # raw) v attr)) = allocated v @ ((k, next_id v) # M)
          \<and> fst ` set ((k, next_id v) # M) \<subseteq> fst ` set (p # raw)"
    using m p by (auto simp: new_BufferAttribute_def)
  then show ?case by blast
qed

subsection \<open>The keys of the raw attributes\<close>

lemma replicate_keys_fst:
  "map fst (snd (replicate_keys ix p ks attr)) = map fst attr"
proof (induction ks arbitrary: attr)
  case Nil
  show ?case by simp
next
  case (Cons key ks)
  have upd: "map fst (AList.update key x attr) = map fst attr" if "map_of attr key = Some y" for x y
    using that by (simp add: update_keys) (metis domI dom_map_of_conv_image_fst)
  show ?case
    using Cons.IH upd
    by (auto split: option.splits sum.splits)
qed

lemma replicate_fst:
  "map fst (snd (replicateAttributesPerTriCorner attr p)) = map fst attr"
proof (cases "map_of attr ''index''")
  case None
  then show ?thesis by (simp add: replicateAttributesPerTriCorner_def)
next
  case (Some ix)
  obtain e attr' where r: "replicate_keys ix p (map fst attr) attr = (e, attr')"
    by (cases "replicate_keys ix p (map fst attr) attr")
  have k: "map fst attr' = map fst attr" using replicate_keys_fst [of ix p "map fst attr" attr] r by simp
  have "''index'' \<in> set (map fst attr')"
    unfolding k using Some by (metis domI dom_map_of_conv_image_fst image_set)
  then have "map fst (AList.update ''index'' x attr') = map fst attr" for x
    unfolding update_keys k by simp
  then show ?thesis using Some r k
    by (cases e) (simp_all add: replicateAttributesPerTriCorner_def)
qed

lemma rawAttributes_keys:
  assumes "rawAttributes a = Inr (raw, vc)"
  shows "distinct (map fst raw)" "map_of raw ''position'' \<noteq> None" "map_of raw ''normal'' \<noteq> None"
proof -
  let ?raw0 = "[(''position'', FloatArray (vertices a)), (''index'', UIntArray (concat (idxs a))),
                (''normal'', FloatArray (normals a))]"
  let ?raw1 = "case textureMap a of None \<Rightarrow> ?raw0
               | Some tm \<Rightarrow> AList.update ''uv'' (FloatArray (map (\<lambda>(x, y). [x, y]) (uv tm))) ?raw0"
  have k1: "map fst ?raw1 = [''position'', ''index'', ''normal''] \<or>
            map fst ?raw1 = [''position'', ''index'', ''normal'', ''uv'']"
    by (simp split: option.splits)
  have k2: "map fst (AList.update ''color'' c ?raw1) = map fst ?raw1 @ [''color'']" for c
    using k1 by (auto simp: update_keys)
  have "map fst raw = map fst ?raw1 \<or> map fst raw = map fst ?raw1 @ [''color'']"
  proof (cases "scalarField_arg a")
    case None
    then show ?thesis using assms by (simp add: rawAttributes_def Let_def)
  next
    case (Some sf)
    show ?thesis
    proof (cases "sf_domainType sf = PER_TRI")
      case False
      then show ?thesis using assms Some k2
        by (auto simp: rawAttributes_def Let_def split: option.splits)
    next
      case True
      have "raw = snd (replicateAttributesPerTriCorner (AList.update ''color'' (FloatArray (sf_colors sf)) ?raw1) True)"
        using assms Some True
        by (auto simp: rawAttributes_def Let_def split: option.splits prod.splits)
      then show ?thesis using k2 by (simp add: replicate_fst)
    qed
  qed
  then have keys: "map fst raw \<in> {[''position'', ''index'', ''normal''],
                     [''position'', ''index'', ''normal'', ''uv''],
                     [''position'', ''index'', ''normal'', ''color''],
                     [''position'', ''index'', ''normal'', ''uv'', ''color'']}"
    using k1 by auto
  then show "distinct (map fst raw)" by auto
  have "''position'' \<in> set (map fst raw)" "''normal'' \<in> set (map fst raw)" using keys by auto
  then show "map_of raw ''position'' \<noteq> None" "map_of raw ''normal'' \<noteq> None"
    by (simp_all add: map_of_eq_None_iff)
qed

subsection \<open>The mesh step in detail\<close>

lemma viewer_inv_cong:
  assumes "currMesh v' = currMesh v" "geom_attributes v' = geom_attributes v"
    "bufferAttributeStash v' = bufferAttributeStash v" "next_id v' = next_id v"
  shows "viewer_inv v' = viewer_inv v"
  using assms by (simp add: viewer_inv_def stash_exclusive_def ids_fresh_def currAttributes_def
      cong: option.case_cong)

lemma build_update_cases:
  assumes cm: "currMesh v = Some cm" and inv: "viewer_inv v"
  shows "(\<exists>e. fst (buildOrUpdateMesh raw mat v) = Some e \<and>
             same_scene v (snd (buildOrUpdateMesh raw mat v)) \<and>
             bufferAttributeStash (snd (buildOrUpdateMesh raw mat v)) = bufferAttributeStash v \<and>
             next_id (snd (buildOrUpdateMesh raw mat v)) = next_id v \<and>
             allocated (snd (buildOrUpdateMesh raw mat v)) = allocated v \<and>
             (map_of (geom_attributes v (geometry cm)) ''position'' = None \<or> map_of raw ''position'' = None \<or>
              map_of (geom_attributes v (geometry cm)) ''normal'' = None \<or> map_of raw ''normal'' = None))
         \<or> (\<exists>v3 attr3. buildOrUpdateMesh raw mat v =
                 (None, v3\<lparr>geom_attributes := (geom_attributes v3)(geometry cm := attr3),
                           currMesh := Some (cm\<lparr>mesh_material := mat\<rparr>)\<rparr>) \<and>
               same_scene v v3 \<and>
               book v3 attr3 = fold (aus_pure (map_of raw)) stashableKeys (book v (geom_attributes v (geometry cm))) \<and>
               map_of (geom_attributes v (geometry cm)) ''position'' \<noteq> None \<and>
               map_of (geom_attributes v (geometry cm)) ''normal'' \<noteq> None)"
proof -
  let ?attr = "geom_attributes v (geometry cm)"
  have ss: "same_scene v (v\<lparr>buffer_array := B\<rparr>)" for B
    by (rule same_sceneI [where S="bufferAttributeStash v" and B=B and N="next_id v" and A="allocated v"]) simp
  show ?thesis
  proof (cases "map_of ?attr ''position'' = None \<or> map_of raw ''position'' = None")
    case True
    then have "\<exists>e. assign_array raw ''position'' ?attr v = (Some e, v)"
      by (auto simp: assign_array_def split: option.splits)
    then obtain e where "buildOrUpdateMesh raw mat v = (Some e, v)"
      using cm by (auto simp: buildOrUpdateMesh_def and_then_def)
    then show ?thesis using True same_scene_refl [of v] by auto
  next
    case False
    then obtain b1 arr1 where p: "map_of ?attr ''position'' = Some b1" "map_of raw ''position'' = Some arr1"
      by auto
    let ?v1 = "v\<lparr>buffer_array := (buffer_array v)(b1 := arr1)\<rparr>"
    have a1: "assign_array raw ''position'' ?attr v = (None, ?v1)"
      using p by (simp add: assign_array_def)
    show ?thesis
    proof (cases "map_of ?attr ''normal'' = None \<or> map_of raw ''normal'' = None")
      case True
      then have "\<exists>e. assign_array raw ''normal'' ?attr ?v1 = (Some e, ?v1)"
        by (auto simp: assign_array_def split: option.splits)
      then obtain e where "buildOrUpdateMesh raw mat v = (Some e, ?v1)"
        using cm a1 by (auto simp: buildOrUpdateMesh_def and_then_def)
      then show ?thesis using True ss [of "(buffer_array v)(b1 := arr1)"] by auto
    next
      case F2: False
      then obtain b2 arr2 where n: "map_of ?attr ''normal'' = Some b2" "map_of raw ''normal'' = Some arr2"
        by auto
      let ?v2 = "v\<lparr>buffer_array := (buffer_array v)(b1 := arr1, b2 := arr2)\<rparr>"
      have a2: "assign_array raw ''normal'' ?attr ?v1 = (None, ?v2)"
        using n by (simp add: assign_array_def)
      have e: "excl_b (book ?v2 ?attr)"
        using cm inv by (simp add: book_def viewer_inv_def stash_exclusive_excl currAttributes_def)
      from update_stashable_book [OF subset_refl e, of raw] obtain v3 attr3 where
        3: "update_stashable stashableKeys raw ?v2 ?attr = (None, v3, attr3)"
        and s3: "same_scene ?v2 v3"
        and b3: "book v3 attr3 = fold (aus_pure (map_of raw)) stashableKeys (book ?v2 ?attr)"
        by blast
      have bb: "book ?v2 ?attr = book v ?attr" by (simp add: book_def)
      have s: "same_scene v v3"
        using same_scene_trans [OF ss s3] .
      have "buildOrUpdateMesh raw mat v =
              (None, v3\<lparr>geom_attributes := (geom_attributes v3)(geometry cm := attr3),
                           currMesh := Some (cm\<lparr>mesh_material := mat\<rparr>)\<rparr>)"
        using cm a1 a2 3 by (simp add: buildOrUpdateMesh_def and_then_def)
      then show ?thesis using s b3 bb p n by auto
    qed
  qed
qed

lemma fold_spk_bN: "bN b \<le> bN (snd (fold spk_pure ks (R, b)))"
proof (induction ks arbitrary: R b)
  case Nil
  show ?case by simp
next
  case (Cons k ks)
  show ?case
  proof (cases "k \<in> set stashableKeys")
    case False
    then show ?thesis using Cons.IH [of b R] by simp
  next
    case True
    have "bN b \<le> bN (aus_pure R k b)" by (cases b) simp
    also have "\<dots> \<le> bN (snd (fold spk_pure ks (R(k := None), aus_pure R k b)))"
      by (rule Cons.IH)
    finally show ?thesis using True by simp
  qed
qed

lemma build_new_shape:
  assumes "currMesh v = None"
  shows "\<exists>v1 attr1 raw1 v2 attr2.
           buildOrUpdateMesh raw mat v =
             (None, v2\<lparr>geom_attributes := (geom_attributes v2)(next_id v2 := attr2),
                       next_id := Suc (Suc (next_id v2)),
                       currMesh := Some \<lparr>mesh_id = Suc (next_id v2), geometry = next_id v2, mesh_material = mat\<rparr>,
                       meshes := group_add (Suc (next_id v2)) (meshes v2)\<rparr>) \<and>
           same_scene v v1 \<and> same_scene v1 v2 \<and>
           (map_of raw1, book v1 attr1) = fold spk_pure (map fst raw) (map_of raw, book v []) \<and>
           allocate_remaining raw1 v1 attr1 = (v2, attr2) \<and>
           bufferAttributeStash v2 = bufferAttributeStash v1 \<and>
           next_id v \<le> next_id v2 \<and>
           (\<forall>k\<in>set stashableKeys. map_of attr2 k = map_of attr1 k \<and> k \<notin> fst ` set raw1)"
proof -
  have e0: "excl_b (book v [])" by (simp add: book_def excl_def)
  from stash_present_keys_book [OF e0, of "map fst raw" raw] obtain v1 attr1 raw1 where
    1: "stash_present_keys (map fst raw) raw v [] = (None, v1, attr1, raw1)"
    and s1: "same_scene v v1"
    and b1: "(map_of raw1, book v1 attr1) = fold spk_pure (map fst raw) (map_of raw, book v [])"
    by blast
  have r1: "map_of raw1 k = None" if "k \<in> set stashableKeys" for k
  proof -
    have "map_of raw1 k = fst (fold spk_pure (map fst raw) (map_of raw, book v [])) k"
      using b1 [symmetric] by simp
    also have "\<dots> = None"
      using that by (simp add: fold_spk_raw map_of_eq_None_iff)
    finally show ?thesis .
  qed
  from allocate_remaining_frame [of raw1 v1 attr1] obtain v2 attr2 where
    2: "allocate_remaining raw1 v1 attr1 = (v2, attr2)"
    and s2: "same_scene v1 v2"
    and st: "bufferAttributeStash v2 = bufferAttributeStash v1"
    and n2: "next_id v1 \<le> next_id v2"
    and a2: "\<forall>k. k \<notin> fst ` set raw1 \<longrightarrow> map_of attr2 k = map_of attr1 k"
    by blast
  have "bN (book v []) \<le> bN (snd (fold spk_pure (map fst raw) (map_of raw, book v [])))"
    by (rule fold_spk_bN)
  then have n1: "next_id v \<le> next_id v1" using b1 [symmetric] by simp
  have keep: "\<forall>k\<in>set stashableKeys. map_of attr2 k = map_of attr1 k \<and> k \<notin> fst ` set raw1"
    using a2 r1 by (simp add: map_of_eq_None_iff)
  have "buildOrUpdateMesh raw mat v =
          (None, v2\<lparr>geom_attributes := (geom_attributes v2)(next_id v2 := attr2),
                       next_id := Suc (Suc (next_id v2)),
                       currMesh := Some \<lparr>mesh_id = Suc (next_id v2), geometry = next_id v2, mesh_material = mat\<rparr>,
                       meshes := group_add (Suc (next_id v2)) (meshes v2)\<rparr>)"
    unfolding buildOrUpdateMesh_def by (simp add: assms 1 2 Let_def)
  then show ?thesis using s1 s2 b1 2 st keep n1 n2 by (meson le_trans)
qed

lemma fold_aus_bN: "bN b \<le> bN (fold (aus_pure R) ks b)"
  using fold_aus_next [of b R ks] by (simp add: bN_def)

lemma build_reuse:
  assumes inv: "viewer_inv v" and key: "key \<in> set stashableKeys"
    and st: "map_of (bufferAttributeStash v) key = Some i"
    and need: "map_of raw key \<noteq> None" and d: "distinct (map fst raw)"
    and b: "buildOrUpdateMesh raw mat v = (None, v5)"
  shows "\<exists>m. currMesh v5 = Some m \<and> geometry m < next_id v5 \<and>
             map_of (geom_attributes v5 (geometry m)) key = Some i \<and>
             map_of (bufferAttributeStash v5) key = None \<and>
             (\<exists>M. allocated v5 = allocated v @ M \<and> key \<notin> fst ` set M)"
proof (cases "currMesh v")
  case None
  from build_new_shape [OF None, of raw mat] obtain v1 attr1 raw1 v2 attr2 where
    r: "buildOrUpdateMesh raw mat v =
             (None, v2\<lparr>geom_attributes := (geom_attributes v2)(next_id v2 := attr2),
                       next_id := Suc (Suc (next_id v2)),
                       currMesh := Some \<lparr>mesh_id = Suc (next_id v2), geometry = next_id v2, mesh_material = mat\<rparr>,
                       meshes := group_add (Suc (next_id v2)) (meshes v2)\<rparr>)"
    and f: "(map_of raw1, book v1 attr1) = fold spk_pure (map fst raw) (map_of raw, book v [])"
    and ar: "allocate_remaining raw1 v1 attr1 = (v2, attr2)"
    and st2: "bufferAttributeStash v2 = bufferAttributeStash v1"
    and keep: "\<forall>k\<in>set stashableKeys. map_of attr2 k = map_of attr1 k \<and> k \<notin> fst ` set raw1"
    by blast
  have kin: "key \<in> set (map fst raw)"
    using need by (simp add: map_of_eq_None_iff)
  have pre: "(map_of raw key \<noteq> None \<and> bS (book v []) key = Some i \<and> bA (book v []) key = None \<and>
              key \<in> set (map fst raw) \<and> key \<in> set stashableKeys)
           \<or> (bS (book v []) key = None \<and> bA (book v []) key = Some i \<and> key \<notin> set (map fst raw))"
    using need st kin key by simp
  from fold_spk_reuse [of "map fst raw" "map_of raw" key "book v []" i, OF d pre] obtain M1 where
    a1: "bA (snd (fold spk_pure (map fst raw) (map_of raw, book v []))) key = Some i"
    and s1: "bS (snd (fold spk_pure (map fst raw) (map_of raw, book v []))) key = None"
    and l1: "bL (snd (fold spk_pure (map fst raw) (map_of raw, book v []))) = bL (book v []) @ M1"
            "key \<notin> fst ` set M1"
    by blast
  have sn: "snd (fold spk_pure (map fst raw) (map_of raw, book v [])) = book v1 attr1"
    using f [symmetric] by simp
  from allocate_remaining_log [of raw1 v1 attr1] obtain M2 where
    l2: "allocated v2 = allocated v1 @ M2" "fst ` set M2 \<subseteq> fst ` set raw1"
    using ar by auto
  have nk2: "key \<notin> fst ` set M2" using l2(2) keep key by blast
  have "allocated v2 = allocated v @ (M1 @ M2) \<and> key \<notin> fst ` set (M1 @ M2)"
    using l1 l2(1) nk2 unfolding sn by (auto simp: image_Un)
  then have log: "\<exists>M. allocated v2 = allocated v @ M \<and> key \<notin> fst ` set M" by blast
  have at: "map_of attr2 key = Some i" using a1 keep key unfolding sn by simp
  have stn: "map_of (bufferAttributeStash v2) key = None" using s1 st2 unfolding sn by simp
  have v5: "v5 = v2\<lparr>geom_attributes := (geom_attributes v2)(next_id v2 := attr2),
                       next_id := Suc (Suc (next_id v2)),
                       currMesh := Some \<lparr>mesh_id = Suc (next_id v2), geometry = next_id v2, mesh_material = mat\<rparr>,
                       meshes := group_add (Suc (next_id v2)) (meshes v2)\<rparr>"
    using r b by simp
  show ?thesis
    unfolding v5 using at stn log by simp
next
  case (Some cm)
  let ?attr = "geom_attributes v (geometry cm)"
  from build_update_cases [OF Some inv, of raw mat] b obtain v3 attr3 where
    r: "buildOrUpdateMesh raw mat v =
                 (None, v3\<lparr>geom_attributes := (geom_attributes v3)(geometry cm := attr3),
                           currMesh := Some (cm\<lparr>mesh_material := mat\<rparr>)\<rparr>)"
    and bk: "book v3 attr3 = fold (aus_pure (map_of raw)) stashableKeys (book v ?attr)"
    by auto
  have an: "map_of ?attr key = None"
    using inv key st Some by (auto simp: viewer_inv_def stash_exclusive_excl excl_def currAttributes_def)
  have pre: "(bS (book v ?attr) key = Some i \<and> bA (book v ?attr) key = None \<and> key \<in> set stashableKeys)
               \<or> (bS (book v ?attr) key = None \<and> bA (book v ?attr) key = Some i)"
    using st an key by simp
  from fold_aus_reuse [of "book v ?attr" key i stashableKeys "map_of raw", OF pre need] obtain M where
    a3: "map_of attr3 key = Some i" and s3: "map_of (bufferAttributeStash v3) key = None"
    and l3: "allocated v3 = allocated v @ M" "key \<notin> fst ` set M"
    unfolding bk [symmetric] by auto
  have "next_id v \<le> next_id v3"
    using fold_aus_bN [of "book v ?attr" "map_of raw" stashableKeys] unfolding bk [symmetric] by simp
  moreover have "geometry cm < next_id v"
    using inv Some by (simp add: viewer_inv_def ids_fresh_def)
  ultimately have g: "geometry cm < next_id v3" by simp
  have v5: "v5 = v3\<lparr>geom_attributes := (geom_attributes v3)(geometry cm := attr3),
                           currMesh := Some (cm\<lparr>mesh_material := mat\<rparr>)\<rparr>"
    using r b by simp
  show ?thesis
    unfolding v5 using a3 s3 l3 g by simp
qed

subsection \<open>Reuse of a stashed buffer\<close>

lemma stashed_buffer_reused:
  assumes inv: "viewer_inv v"
    and key: "key \<in> set stashableKeys" and st: "map_of (bufferAttributeStash v) key = Some i"
    and raw: "rawAttributes a = Inr (raw, vc)" and need: "map_of raw key \<noteq> None"
    and ok: "setGeometry v a = (None, v')"
  shows "map_of (currAttributes v') key = Some i \<and> map_of (bufferAttributeStash v') key = None \<and>
         (\<exists>M. allocated v' = allocated v @ M \<and> key \<notin> fst ` set M)"
proof (cases rule: setGeometry_cases [of a v])
  case (mm_fail e v1)
  then show ?thesis using ok by simp
next
  case (raw_fail e v1)
  then show ?thesis using ok by simp
next
  case (ghost_fail e v1 v2 raw vc)
  then show ?thesis using ok by simp
next
  case (build_fail e v1 v2 raw vc mat lib v5)
  then show ?thesis using ok by simp
next
  case (vf_fail e v1 v2 raw vc mat lib v5 v6)
  then show ?thesis using ok by simp
next
  case (ok v1 v2 raw' vc' mat lib v5 v6)
  have rr: "raw' = raw" using ok(2) raw by simp
  have v1: "v1 = snd (modelMatrixStep a (frame_start v a))" using ok(1) by simp
  have v2: "v2 = snd (ghostOrClean a v1)" using ok(3) by simp
  let ?v4 = "pause (v2\<lparr>materialLibrary := lib\<rparr>)"
  have f4: "bufferAttributeStash ?v4 = bufferAttributeStash v" "geom_attributes ?v4 = geom_attributes v"
    "next_id ?v4 = next_id v" "allocated ?v4 = allocated v"
    "currMesh ?v4 = (if preserveExisting a then None else currMesh v)"
    unfolding v2 v1 by (simp_all add: pause_def)
  have inv4: "viewer_inv ?v4"
  proof (cases "preserveExisting a")
    case True
    then show ?thesis using f4(5) by (simp add: no_mesh_inv)
  next
    case False
    then show ?thesis using viewer_inv_cong [of ?v4 v] f4 inv by simp
  qed
  have st4: "map_of (bufferAttributeStash ?v4) key = Some i" using st f4(1) by simp
  from build_reuse [OF inv4 key st4 need rawAttributes_keys(1) [OF raw] ok(5) [unfolded rr]]
  obtain m M where m: "currMesh v5 = Some m" "geometry m < next_id v5"
    "map_of (geom_attributes v5 (geometry m)) key = Some i"
    "map_of (bufferAttributeStash v5) key = None"
    "allocated v5 = allocated ?v4 @ M" "key \<notin> fst ` set M"
    by blast
  have v6: "v6 = snd (vectorFieldStep a (repointOverlays v5))" using ok(6) by simp
  have v': "v' = resume v6" using ok(7) \<open>setGeometry v a = (None, v')\<close> by simp
  have c: "currMesh v' = Some m" unfolding v' v6 using m(1) by simp
  have g: "geom_attributes v' (geometry m) = geom_attributes v5 (geometry m)"
    unfolding v' v6 using m(2) by simp
  have s: "bufferAttributeStash v' = bufferAttributeStash v5" unfolding v' v6 by simp
  have l: "allocated v' = allocated v @ M" unfolding v' v6 using m(5) f4(4) by simp
  show ?thesis
    using c g s l m(3,4,6) by (auto simp: currAttributes_def)
qed

subsection \<open>Updates in place\<close>

lemma inplace_shape:
  assumes inv: "viewer_inv v" and cm: "currMesh v = Some cm" and np: "\<not> preserveExisting a"
  shows "(\<exists>m. currMesh (snd (setGeometry v a)) = Some m \<and> geometry m = geometry cm) \<and>
         ((dead v a \<and> currAttributes (snd (setGeometry v a)) = currAttributes v \<and>
           bufferAttributeStash (snd (setGeometry v a)) = bufferAttributeStash v \<and>
           allocated (snd (setGeometry v a)) = allocated v)
          \<or> (\<not> dead v a \<and> (\<exists>raw vc. rawAttributes a = Inr (raw, vc) \<and>
                (let b = fold (aus_pure (map_of raw)) stashableKeys (book v (currAttributes v))
                 in map_of (currAttributes (snd (setGeometry v a))) = bA b \<and>
                    map_of (bufferAttributeStash (snd (setGeometry v a))) = bS b \<and>
                    allocated (snd (setGeometry v a)) = bL b))))"
proof -
  have ca: "currAttributes v = geom_attributes v (geometry cm)" using cm by (simp add: currAttributes_def)
  have same: "(\<exists>m. currMesh s = Some m \<and> geometry m = geometry cm) \<and>
     currAttributes s = currAttributes v \<and> bufferAttributeStash s = bufferAttributeStash v \<and>
     allocated s = allocated v"
    if "currMesh s = Some cm" "geom_attributes s = geom_attributes v"
       "bufferAttributeStash s = bufferAttributeStash v" "allocated s = allocated v" for s
    using that cm by (simp add: currAttributes_def)
  show ?thesis
  proof (cases rule: setGeometry_cases [of a v])
    case (mm_fail e v1)
    have v1: "v1 = snd (modelMatrixStep a (frame_start v a))" using mm_fail(1) by simp
    have d: "dead v a" using mm_fail(1) by (auto simp: dead_def modelMatrixStep_def split: if_splits)
    have "snd (setGeometry v a) = v1" using mm_fail(2) by simp
    then show ?thesis using d same [of v1] cm unfolding v1 by simp
  next
    case (raw_fail e v1)
    have v1: "v1 = snd (modelMatrixStep a (frame_start v a))" using raw_fail(1) by simp
    have d: "dead v a" using raw_fail(2) by (simp add: dead_def)
    have "snd (setGeometry v a) = v1" using raw_fail(3) by simp
    then show ?thesis using d same [of v1] cm unfolding v1 by simp
  next
    case (ghost_fail e v1 v2 raw vc)
    have "fst (ghostOrClean a v1) = None" using np by (simp add: ghostOrClean_def)
    then show ?thesis using ghost_fail(3) by simp
  next
    case (build_fail e v1 v2 raw vc mat lib v5)
    have v1: "v1 = snd (modelMatrixStep a (frame_start v a))" using build_fail(1) by simp
    have v2: "v2 = snd (ghostOrClean a v1)" using build_fail(3) by simp
    let ?v4 = "pause (v2\<lparr>materialLibrary := lib\<rparr>)"
    have f4: "bufferAttributeStash ?v4 = bufferAttributeStash v" "geom_attributes ?v4 = geom_attributes v"
      "next_id ?v4 = next_id v" "allocated ?v4 = allocated v" "currMesh ?v4 = Some cm"
      unfolding v2 v1 using np cm by (simp_all add: pause_def)
    have inv4: "viewer_inv ?v4" using viewer_inv_cong [of ?v4 v] f4 inv cm by simp
    from build_update_cases [OF f4(5) inv4, of raw mat] build_fail(5)
    have ss: "same_scene ?v4 v5" and st: "bufferAttributeStash v5 = bufferAttributeStash ?v4"
      and al: "allocated v5 = allocated ?v4"
      and missing: "map_of (geom_attributes ?v4 (geometry cm)) ''position'' = None \<or> map_of raw ''position'' = None \<or>
              map_of (geom_attributes ?v4 (geometry cm)) ''normal'' = None \<or> map_of raw ''normal'' = None"
      by auto
    have d: "dead v a"
      using missing rawAttributes_keys(2,3) [OF build_fail(2)] f4(2) ca by (auto simp: dead_def has_pn_def)
    have "snd (setGeometry v a) = v5" using build_fail(6) by simp
    then show ?thesis
      using d same [of v5] same_scene_fields(1,2) [OF ss] st al f4 by simp
  next
    case (vf_fail e v1 v2 raw vc mat lib v5 v6)
    have v1: "v1 = snd (modelMatrixStep a (frame_start v a))" using vf_fail(1) by simp
    have v2: "v2 = snd (ghostOrClean a v1)" using vf_fail(3) by simp
    let ?v4 = "pause (v2\<lparr>materialLibrary := lib\<rparr>)"
    have f4: "bufferAttributeStash ?v4 = bufferAttributeStash v" "geom_attributes ?v4 = geom_attributes v"
      "next_id ?v4 = next_id v" "allocated ?v4 = allocated v" "currMesh ?v4 = Some cm"
      unfolding v2 v1 using np cm by (simp_all add: pause_def)
    have inv4: "viewer_inv ?v4" using viewer_inv_cong [of ?v4 v] f4 inv cm by simp
    have bk4: "book ?v4 (geom_attributes ?v4 (geometry cm)) = book v (currAttributes v)"
      using f4 ca by (simp add: book_def)
    from build_update_cases [OF f4(5) inv4, of raw mat] vf_fail(5) obtain v3 attr3 where
      v5: "v5 = v3\<lparr>geom_attributes := (geom_attributes v3)(geometry cm := attr3),
                           currMesh := Some (cm\<lparr>mesh_material := mat\<rparr>)\<rparr>"
      and bk: "book v3 attr3 = fold (aus_pure (map_of raw)) stashableKeys (book v (currAttributes v))"
      and pn: "map_of (geom_attributes ?v4 (geometry cm)) ''position'' \<noteq> None"
              "map_of (geom_attributes ?v4 (geometry cm)) ''normal'' \<noteq> None"
      unfolding bk4 by auto
    have nd: "\<not> dead v a"
      using pn f4(2) ca vf_fail(1,2) by (auto simp: dead_def has_pn_def modelMatrixStep_def split: if_splits)
    have n3: "next_id v \<le> next_id v3"
      using fold_aus_bN [of "book v (currAttributes v)" "map_of raw" stashableKeys] unfolding bk [symmetric] by simp
    have g: "geometry cm < next_id v5"
      using inv cm n3 unfolding v5 by (simp add: viewer_inv_def ids_fresh_def)
    have v6: "v6 = snd (vectorFieldStep a (repointOverlays v5))" using vf_fail(6) by simp
    have r: "snd (setGeometry v a) = v6" using vf_fail(7) by simp
    have c6: "currMesh v6 = Some (cm\<lparr>mesh_material := mat\<rparr>)" unfolding v6 v5 by simp
    have a6: "currAttributes v6 = attr3"
      using c6 g unfolding currAttributes_def v6 by (simp add: v5)
    have s6: "bufferAttributeStash v6 = bufferAttributeStash v3" unfolding v6 v5 by simp
    have l6: "allocated v6 = allocated v3" unfolding v6 v5 by simp
    have "map_of (currAttributes v6) = bA (book v3 attr3) \<and>
          map_of (bufferAttributeStash v6) = bS (book v3 attr3) \<and> allocated v6 = bL (book v3 attr3)"
      using a6 s6 l6 by simp
    then show ?thesis
      unfolding r using nd c6 vf_fail(2) by (simp add: Let_def bk)
  next
    case (ok v1 v2 raw vc mat lib v5 v6)
    have v1: "v1 = snd (modelMatrixStep a (frame_start v a))" using ok(1) by simp
    have v2: "v2 = snd (ghostOrClean a v1)" using ok(3) by simp
    let ?v4 = "pause (v2\<lparr>materialLibrary := lib\<rparr>)"
    have f4: "bufferAttributeStash ?v4 = bufferAttributeStash v" "geom_attributes ?v4 = geom_attributes v"
      "next_id ?v4 = next_id v" "allocated ?v4 = allocated v" "currMesh ?v4 = Some cm"
      unfolding v2 v1 using np cm by (simp_all add: pause_def)
    have inv4: "viewer_inv ?v4" using viewer_inv_cong [of ?v4 v] f4 inv cm by simp
    have bk4: "book ?v4 (geom_attributes ?v4 (geometry cm)) = book v (currAttributes v)"
      using f4 ca by (simp add: book_def)
    from build_update_cases [OF f4(5) inv4, of raw mat] ok(5) obtain v3 attr3 where
      v5: "v5 = v3\<lparr>geom_attributes := (geom_attributes v3)(geometry cm := attr3),
                           currMesh := Some (cm\<lparr>mesh_material := mat\<rparr>)\<rparr>"
      and bk: "book v3 attr3 = fold (aus_pure (map_of raw)) stashableKeys (book v (currAttributes v))"
      and pn: "map_of (geom_attributes ?v4 (geometry cm)) ''position'' \<noteq> None"
              "map_of (geom_attributes ?v4 (geometry cm)) ''normal'' \<noteq> None"
      unfolding bk4 by auto
    have nd: "\<not> dead v a"
      using pn f4(2) ca ok(1,2) by (auto simp: dead_def has_pn_def modelMatrixStep_def split: if_splits)
    have n3: "next_id v \<le> next_id v3"
      using fold_aus_bN [of "book v (currAttributes v)" "map_of raw" stashableKeys] unfolding bk [symmetric] by simp
    have g: "geometry cm < next_id v5"
      using inv cm n3 unfolding v5 by (simp add: viewer_inv_def ids_fresh_def)
    have v6: "v6 = snd (vectorFieldStep a (repointOverlays v5))" using ok(6) by simp
    have r: "snd (setGeometry v a) = resume v6" using ok(7) by simp
    have c6: "currMesh (resume v6) = Some (cm\<lparr>mesh_material := mat\<rparr>)" unfolding v6 v5 by simp
    have a6: "currAttributes (resume v6) = attr3"
      using c6 g unfolding currAttributes_def v6 by (simp add: v5)
    have s6: "bufferAttributeStash (resume v6) = bufferAttributeStash v3" unfolding v6 v5 by simp
    have l6: "allocated (resume v6) = allocated v3" unfolding v6 v5 by simp
    have "map_of (currAttributes (resume v6)) = bA (book v3 attr3) \<and>
          map_of (bufferAttributeStash (resume v6)) = bS (book v3 attr3) \<and> allocated (resume v6) = bL (book v3 attr3)"
      using a6 s6 l6 by simp
    then show ?thesis
      unfolding r using nd c6 ok(2) by (simp add: Let_def bk)
  qed
qed

lemma inplace_keeps:
  assumes "viewer_inv v" "currMesh v = Some cm" "\<not> preserveExisting a"
  shows "viewer_inv (snd (setGeometry v a))" "\<exists>m. currMesh (snd (setGeometry v a)) = Some m"
  using setGeometry_inv [OF assms(1), of a] inplace_shape [OF assms, THEN conjunct1] by auto

lemma inplace_known:
  assumes "viewer_inv v" "currMesh v = Some cm" "\<not> preserveExisting a" "known v k"
  shows "known (snd (setGeometry v a)) k"
proof -
  from inplace_shape [OF assms(1-3), THEN conjunct2] show ?thesis
  proof
    assume "dead v a \<and> currAttributes (snd (setGeometry v a)) = currAttributes v \<and>
           bufferAttributeStash (snd (setGeometry v a)) = bufferAttributeStash v \<and>
           allocated (snd (setGeometry v a)) = allocated v"
    then show ?thesis using assms(4) by (simp add: known_def)
  next
    assume "\<not> dead v a \<and> (\<exists>raw vc. rawAttributes a = Inr (raw, vc) \<and>
                (let b = fold (aus_pure (map_of raw)) stashableKeys (book v (currAttributes v))
                 in map_of (currAttributes (snd (setGeometry v a))) = bA b \<and>
                    map_of (bufferAttributeStash (snd (setGeometry v a))) = bS b \<and>
                    allocated (snd (setGeometry v a)) = bL b))"
    then obtain raw where
      r: "map_of (currAttributes (snd (setGeometry v a)))
            = bA (fold (aus_pure (map_of raw)) stashableKeys (book v (currAttributes v)))"
         "map_of (bufferAttributeStash (snd (setGeometry v a)))
            = bS (fold (aus_pure (map_of raw)) stashableKeys (book v (currAttributes v)))"
      by (auto simp: Let_def)
    have "bA (book v (currAttributes v)) k \<noteq> None \<or> bS (book v (currAttributes v)) k \<noteq> None"
      using assms(4) by (simp add: known_def)
    from fold_aus_known [of "book v (currAttributes v)" k "map_of raw" stashableKeys, OF this] show ?thesis
      unfolding known_def r .
  qed
qed

lemma inplace_has_pn:
  assumes "viewer_inv v" "currMesh v = Some cm" "\<not> preserveExisting a"
  shows "has_pn (snd (setGeometry v a)) = has_pn v"
proof -
  from inplace_shape [OF assms(1-3), THEN conjunct2] show ?thesis
  proof
    assume "dead v a \<and> currAttributes (snd (setGeometry v a)) = currAttributes v \<and>
           bufferAttributeStash (snd (setGeometry v a)) = bufferAttributeStash v \<and>
           allocated (snd (setGeometry v a)) = allocated v"
    then show ?thesis by (simp add: has_pn_def)
  next
    assume "\<not> dead v a \<and> (\<exists>raw vc. rawAttributes a = Inr (raw, vc) \<and>
                (let b = fold (aus_pure (map_of raw)) stashableKeys (book v (currAttributes v))
                 in map_of (currAttributes (snd (setGeometry v a))) = bA b \<and>
                    map_of (bufferAttributeStash (snd (setGeometry v a))) = bS b \<and>
                    allocated (snd (setGeometry v a)) = bL b))"
    then obtain raw where
      r: "map_of (currAttributes (snd (setGeometry v a)))
            = bA (fold (aus_pure (map_of raw)) stashableKeys (book v (currAttributes v)))"
      by (auto simp: Let_def)
    have "''position'' \<notin> set stashableKeys" "''normal'' \<notin> set stashableKeys"
      by (simp_all add: stashableKeys_def)
    from fold_aus_other [OF this(1), of "map_of raw" "book v (currAttributes v)"]
         fold_aus_other [OF this(2), of "map_of raw" "book v (currAttributes v)"]
    show ?thesis unfolding has_pn_def r by simp
  qed
qed

lemma inplace_dead:
  assumes "viewer_inv v" "currMesh v = Some cm" "\<not> preserveExisting a"
  shows "dead (snd (setGeometry v a)) b = dead v b"
  using inplace_has_pn [OF assms] by (simp add: dead_def)

lemma inplace_quiet_other:
  assumes "viewer_inv v" "currMesh v = Some cm" "\<not> preserveExisting a" "quiet v b"
  shows "quiet (snd (setGeometry v a)) b"
  using assms(4) inplace_dead [OF assms(1-3), of b] inplace_known [OF assms(1-3)]
  by (auto simp: quiet_def)

lemma inplace_quiet_self:
  assumes "viewer_inv v" "currMesh v = Some cm" "\<not> preserveExisting a"
  shows "quiet (snd (setGeometry v a)) a"
proof -
  from inplace_shape [OF assms(1-3), THEN conjunct2] show ?thesis
  proof
    assume "dead v a \<and> currAttributes (snd (setGeometry v a)) = currAttributes v \<and>
           bufferAttributeStash (snd (setGeometry v a)) = bufferAttributeStash v \<and>
           allocated (snd (setGeometry v a)) = allocated v"
    then show ?thesis using inplace_dead [OF assms, of a] by (simp add: quiet_def)
  next
    assume "\<not> dead v a \<and> (\<exists>raw vc. rawAttributes a = Inr (raw, vc) \<and>
                (let b = fold (aus_pure (map_of raw)) stashableKeys (book v (currAttributes v))
                 in map_of (currAttributes (snd (setGeometry v a))) = bA b \<and>
                    map_of (bufferAttributeStash (snd (setGeometry v a))) = bS b \<and>
                    allocated (snd (setGeometry v a)) = bL b))"
    then obtain raw vc where raw: "rawAttributes a = Inr (raw, vc)" and
      r: "map_of (currAttributes (snd (setGeometry v a)))
            = bA (fold (aus_pure (map_of raw)) stashableKeys (book v (currAttributes v)))"
      by (auto simp: Let_def)
    have "known (snd (setGeometry v a)) k" if "k \<in> set stashableKeys" "needs a k" for k
    proof -
      have "map_of raw k \<noteq> None" using that(2) raw by (simp add: needs_def)
      from fold_aus_after [of k stashableKeys "map_of raw" "book v (currAttributes v)", OF that(1) this]
      show ?thesis unfolding known_def r by simp
    qed
    then show ?thesis by (simp add: quiet_def)
  qed
qed

lemma inplace_quiet_noalloc:
  assumes "viewer_inv v" "currMesh v = Some cm" "\<not> preserveExisting a" "quiet v a"
  shows "allocated (snd (setGeometry v a)) = allocated v"
proof -
  from inplace_shape [OF assms(1-3), THEN conjunct2] show ?thesis
  proof
    assume "dead v a \<and> currAttributes (snd (setGeometry v a)) = currAttributes v \<and>
           bufferAttributeStash (snd (setGeometry v a)) = bufferAttributeStash v \<and>
           allocated (snd (setGeometry v a)) = allocated v"
    then show ?thesis by simp
  next
    assume *: "\<not> dead v a \<and> (\<exists>raw vc. rawAttributes a = Inr (raw, vc) \<and>
                (let b = fold (aus_pure (map_of raw)) stashableKeys (book v (currAttributes v))
                 in map_of (currAttributes (snd (setGeometry v a))) = bA b \<and>
                    map_of (bufferAttributeStash (snd (setGeometry v a))) = bS b \<and>
                    allocated (snd (setGeometry v a)) = bL b))"
    then obtain raw vc where raw: "rawAttributes a = Inr (raw, vc)" and
      r: "allocated (snd (setGeometry v a))
            = bL (fold (aus_pure (map_of raw)) stashableKeys (book v (currAttributes v)))"
      by (auto simp: Let_def)
    have q: "\<forall>k\<in>set stashableKeys. needs a k \<longrightarrow> known v k"
      using assms(4) * by (simp add: quiet_def)
    have "\<forall>k\<in>set stashableKeys. map_of raw k \<noteq> None \<longrightarrow>
            bA (book v (currAttributes v)) k \<noteq> None \<or> bS (book v (currAttributes v)) k \<noteq> None"
      using q raw by (simp add: needs_def known_def)
    from fold_aus_noalloc [of stashableKeys "map_of raw" "book v (currAttributes v)", OF this]
    show ?thesis unfolding r by simp
  qed
qed

lemma steady_cycle:
  assumes "steady v on off" "\<not> preserveExisting on" "\<not> preserveExisting off"
  shows "steady (snd (setGeometry (snd (setGeometry v on)) off)) on off"
    and "allocated (snd (setGeometry (snd (setGeometry v on)) off)) = allocated v"
proof -
  from assms(1) obtain cm where v: "viewer_inv v" "currMesh v = Some cm" "quiet v on" "quiet v off"
    by (auto simp: steady_def)
  let ?v1 = "snd (setGeometry v on)"
  from inplace_keeps [OF v(1,2) assms(2)] obtain m1 where
    v1: "viewer_inv ?v1" "currMesh ?v1 = Some m1" by auto
  have q1: "quiet ?v1 on" "quiet ?v1 off"
    using inplace_quiet_self [OF v(1,2) assms(2)] inplace_quiet_other [OF v(1,2) assms(2) v(4)] by auto
  have a1: "allocated ?v1 = allocated v" using inplace_quiet_noalloc [OF v(1,2) assms(2) v(3)] .
  let ?v2 = "snd (setGeometry ?v1 off)"
  from inplace_keeps [OF v1 assms(3)] obtain m2 where
    v2: "viewer_inv ?v2" "currMesh ?v2 = Some m2" by auto
  have q2: "quiet ?v2 on" "quiet ?v2 off"
    using inplace_quiet_self [OF v1 assms(3)] inplace_quiet_other [OF v1 assms(3) q1(1)] by auto
  have a2: "allocated ?v2 = allocated ?v1" using inplace_quiet_noalloc [OF v1 assms(3) q1(2)] .
  show "steady ?v2 on off" using v2 q2 by (simp add: steady_def)
  show "allocated ?v2 = allocated v" using a1 a2 by simp
qed

lemma first_cycle_steady:
  assumes "viewer_inv v" "currMesh v = Some cm" "\<not> preserveExisting on" "\<not> preserveExisting off"
  shows "steady (snd (setGeometry (snd (setGeometry v on)) off)) on off"
proof -
  let ?v1 = "snd (setGeometry v on)"
  from inplace_keeps [OF assms(1,2,3)] obtain m1 where
    v1: "viewer_inv ?v1" "currMesh ?v1 = Some m1" by auto
  have q1: "quiet ?v1 on" using inplace_quiet_self [OF assms(1,2,3)] .
  let ?v2 = "snd (setGeometry ?v1 off)"
  from inplace_keeps [OF v1 assms(4)] obtain m2 where
    v2: "viewer_inv ?v2" "currMesh ?v2 = Some m2" by auto
  have q2: "quiet ?v2 on" "quiet ?v2 off"
    using inplace_quiet_self [OF v1 assms(4)] inplace_quiet_other [OF v1 assms(4) q1] by auto
  show ?thesis using v2 q2 by (simp add: steady_def)
qed

lemma steady_cycles:
  assumes "steady v on off" "\<not> preserveExisting on" "\<not> preserveExisting off"
  shows "allocated (toggle_cycles n v on off) = allocated v"
  using assms(1)
proof (induction n arbitrary: v)
  case 0
  show ?case by simp
next
  case (Suc n)
  from steady_cycle [OF Suc.prems assms(2,3)] Suc.IH show ?case by simp
qed

lemma toggles_allocate_once:
  assumes "viewer_inv v" "currMesh v = Some cm" "\<not> preserveExisting on" "\<not> preserveExisting off"
  shows "allocated (toggle_cycles (Suc n) v on off) = allocated (toggle_cycles 1 v on off)"
  using steady_cycles [OF first_cycle_steady [OF assms] assms(3,4), of n] by simp

section \<open>The stash invariant and the reuse of stashed buffers\<close>

text \<open>
  C2. After every call of every sequence of \<^verbatim>\<open>setGeometry\<close> calls on a viewer
  (the constructor's first update included, and also when calls raise), no
  stashable key is both an attribute of the current mesh's geometry and in the
  stash.
\<close>

theorem C2_stash_exclusive_after_every_call:
  "stash_exclusive (setGeometry_calls (snd (ViewerBase_init lineMesh a0)) as)"
proof -
  have "viewer_inv (snd (ViewerBase_init lineMesh a0))"
    unfolding ViewerBase_init_def by (rule setGeometry_inv) (rule fields_inv)
  then have "viewer_inv (setGeometry_calls (snd (ViewerBase_init lineMesh a0)) as)"
    by (rule setGeometry_calls_inv)
  then show ?thesis by (simp add: viewer_inv_def)
qed

lemma tri_viewer_inv: "viewer_inv tri_viewer"
  unfolding tri_viewer_def ViewerBase_init_def by (rule setGeometry_inv) (rule fields_inv)

lemma tri_eval:
  "bufferAttributeStash (setGeometry_calls tri_viewer [field_on, tri_args]) = [(''color'', 5)]"
  "currAttributes (setGeometry_calls tri_viewer [field_on, tri_args]) = [(''index'', 0), (''position'', 1), (''normal'', 2)]"
  by code_simp+

theorem C2_witness:
  "stash_exclusive (setGeometry_calls (snd (ViewerBase_init False tri_args)) [field_on, tri_args]) \<and>
   map_of (bufferAttributeStash (setGeometry_calls (snd (ViewerBase_init False tri_args)) [field_on, tri_args])) ''color'' = Some 5 \<and>
   map_of (currAttributes (setGeometry_calls (snd (ViewerBase_init False tri_args)) [field_on, tri_args])) ''color'' = None"
  using C2_stash_exclusive_after_every_call [of False tri_args "[field_on, tri_args]"] tri_eval
  by (simp add: tri_viewer_def)

text \<open>
  C3, amended. On a viewer with a current mesh, a successful \<^verbatim>\<open>setGeometry\<close>
  call whose frame needs a stashable key that is stashed attaches the stashed
  buffer to the current geometry, takes it out of the stash and constructs no
  buffer for the key. For updates without \<^verbatim>\<open>preserveExisting\<close>, the allocations
  after any number of on/off cycles are those after the first cycle.
\<close>

theorem C3_stash_reuse:
  assumes "viewer_inv v" and "currMesh v = Some cm"
  shows "(key \<in> set stashableKeys \<and> map_of (bufferAttributeStash v) key = Some i \<and>
          rawAttributes a = Inr (raw, vc) \<and> map_of raw key \<noteq> None \<and> setGeometry v a = (None, v')
          \<longrightarrow> map_of (currAttributes v') key = Some i \<and> map_of (bufferAttributeStash v') key = None \<and>
               (\<exists>M. allocated v' = allocated v @ M \<and> key \<notin> fst ` set M))
         \<and> (\<not> preserveExisting on \<and> \<not> preserveExisting off
          \<longrightarrow> allocated (toggle_cycles (Suc n) v on off) = allocated (toggle_cycles 1 v on off))"
  using stashed_buffer_reused [OF assms(1), of key i a raw vc v']
    toggles_allocate_once [OF assms, of on off n]
  by blast

lemma stashed_eval:
  "map_option mesh_id (currMesh stashed_viewer) = Some 4"
  "bufferAttributeStash stashed_viewer = [(''color'', 5)]"
  "fst (setGeometry stashed_viewer field_on) = None"
  "map fst (fst (projr (rawAttributes field_on))) = [''position'', ''index'', ''normal'', ''color'']"
  "\<not> isl (rawAttributes field_on)"
  "currAttributes (snd (setGeometry stashed_viewer field_on))
     = [(''index'', 0), (''position'', 1), (''normal'', 2), (''color'', 5)]"
  "bufferAttributeStash (snd (setGeometry stashed_viewer field_on)) = []"
  "allocated stashed_viewer = [(''index'', 0), (''position'', 1), (''normal'', 2), (''color'', 5)]"
  "allocated (toggle_cycles 1 stashed_viewer field_on tri_args)
     = [(''index'', 0), (''position'', 1), (''normal'', 2), (''color'', 5)]"
  "\<not> preserveExisting field_on" "\<not> preserveExisting tri_args"
  by code_simp+

theorem C3_witness:
  "viewer_inv stashed_viewer \<and> currMesh stashed_viewer \<noteq> None \<and>
   map_of (bufferAttributeStash stashed_viewer) ''color'' = Some 5 \<and>
   fst (setGeometry stashed_viewer field_on) = None \<and>
   map_of (currAttributes (snd (setGeometry stashed_viewer field_on))) ''color'' = Some 5 \<and>
   map_of (bufferAttributeStash (snd (setGeometry stashed_viewer field_on))) ''color'' = None \<and>
   ''color'' \<notin> fst ` set (drop (length (allocated stashed_viewer))
                               (allocated (snd (setGeometry stashed_viewer field_on)))) \<and>
   allocated (toggle_cycles 4 stashed_viewer field_on tri_args)
     = [(''index'', 0), (''position'', 1), (''normal'', 2), (''color'', 5)]"
proof -
  have inv: "viewer_inv stashed_viewer"
    unfolding stashed_viewer_def by (rule setGeometry_calls_inv) (rule tri_viewer_inv)
  obtain cm where cm: "currMesh stashed_viewer = Some cm"
    using stashed_eval(1) by (cases "currMesh stashed_viewer") auto
  obtain raw vc where raw: "rawAttributes field_on = Inr (raw, vc)"
    using stashed_eval(5) by (cases "rawAttributes field_on") auto
  have "''color'' \<in> set (map fst raw)"
    using stashed_eval(4) raw by simp
  then have need: "map_of raw ''color'' \<noteq> None"
    by (simp add: map_of_eq_None_iff)
  have ok: "setGeometry stashed_viewer field_on = (None, snd (setGeometry stashed_viewer field_on))"
    using stashed_eval(3) by (cases "setGeometry stashed_viewer field_on") simp
  have key: "''color'' \<in> set stashableKeys" by (simp add: stashableKeys_def)
  have st: "map_of (bufferAttributeStash stashed_viewer) ''color'' = Some 5"
    by (simp add: stashed_eval(2))
  note t = C3_stash_reuse [OF inv cm, of "''color''" 5 field_on raw vc
      "snd (setGeometry stashed_viewer field_on)" field_on tri_args 3]
  from t key st raw need ok obtain M where
    r: "map_of (currAttributes (snd (setGeometry stashed_viewer field_on))) ''color'' = Some 5"
       "map_of (bufferAttributeStash (snd (setGeometry stashed_viewer field_on))) ''color'' = None"
       "allocated (snd (setGeometry stashed_viewer field_on)) = allocated stashed_viewer @ M"
       "''color'' \<notin> fst ` set M"
    by blast
  have tg: "allocated (toggle_cycles 4 stashed_viewer field_on tri_args)
              = allocated (toggle_cycles 1 stashed_viewer field_on tri_args)"
    using t stashed_eval(10,11) by (simp add: numeral_eq_Suc)
  show ?thesis
    using inv cm st stashed_eval(3) r tg stashed_eval(9) by simp
qed

text \<open>
  With \<^verbatim>\<open>preserveExisting\<close> every update builds a new mesh, and the
  allocations grow with every cycle: 10 after one cycle, 17 after two.
\<close>

theorem C3_counterexample:
  "map_option mesh_id (currMesh tri_viewer) = Some 4 \<and>
   length (allocated (toggle_cycles 1 tri_viewer preserving_on preserving_off)) = 10 \<and>
   length (allocated (toggle_cycles 2 tri_viewer preserving_on preserving_off)) = 17"
  by code_simp

section \<open>Well-formed scenes\<close>

subsection \<open>The buffers of the attribute dictionary and the stash\<close>

lemma update_absent: "map_of al k = None \<Longrightarrow> AList.update k b al = al @ [(k, b)]"
  by (induction al) (auto split: if_splits)

lemma delete_values_subset: "set (map snd (AList.delete k al)) \<subseteq> set (map snd al)"
  by (auto simp: AList.delete_eq)

lemma delete_values_distinct: "distinct (map snd al) \<Longrightarrow> distinct (map snd (AList.delete k al))"
  by (simp add: AList.delete_eq distinct_map_filter)

lemma delete_value_gone:
  "map_of al k = Some b \<Longrightarrow> distinct (map snd al) \<Longrightarrow> b \<notin> set (map snd (AList.delete k al))"
proof (induction al)
  case Nil
  then show ?case by simp
next
  case (Cons p al)
  obtain k' b' where p: "p = (k', b')" by (cases p)
  show ?case
  proof (cases "k' = k")
    case True
    then have "b' = b" using Cons.prems(1) p by simp
    then have "b \<notin> set (map snd al)" using Cons.prems(2) p by simp
    moreover have "AList.delete k (p # al) = AList.delete k al" using p True by simp
    ultimately show ?thesis using delete_values_subset [of k al] by (simp only:) blast
  next
    case False
    then have m: "map_of al k = Some b" using Cons.prems(1) p by simp
    then have "(k, b) \<in> set al" by (rule map_of_SomeD)
    then have "b \<in> set (map snd al)" by force
    then have "b' \<noteq> b" using Cons.prems(2) p by auto
    then show ?thesis using Cons.IH [OF m] Cons.prems(2) p False by simp
  qed
qed

lemma update_values:
  "set (map snd (AList.update k n al)) \<subseteq> insert n (set (map snd al))"
  by (induction al) auto

lemma update_values_distinct:
  "distinct (map snd al) \<Longrightarrow> n \<notin> set (map snd al) \<Longrightarrow> distinct (map snd (AList.update k n al))"
proof (induction al)
  case Nil
  then show ?case by simp
next
  case (Cons p al)
  obtain k' b' where p: "p = (k', b')" by (cases p)
  show ?case
  proof (cases "k' = k")
    case True
    then show ?thesis using Cons.prems p by simp
  next
    case False
    have "b' \<notin> set (map snd (AList.update k n al))"
      using update_values [of k n al] Cons.prems p by auto
    then show ?thesis using Cons False p by simp
  qed
qed

lemma move_to_stash:
  fixes A S A' :: "nat list"
  assumes "distinct (A @ S)" "b \<in> set A" "distinct A'" "set A' \<subseteq> set A" "b \<notin> set A'"
  shows "distinct (A' @ S @ [b]) \<and> set (A' @ S @ [b]) \<subseteq> set (A @ S)"
proof -
  have 1: "distinct S" "set A \<inter> set S = {}" using assms(1) by simp_all
  have 2: "b \<notin> set S" using 1(2) assms(2) by blast
  have 3: "set A' \<inter> set S = {}" using 1(2) assms(4) by blast
  have "distinct (A' @ S @ [b])" using assms(3,5) 1(1) 2 3 by simp
  moreover have "set (A' @ S @ [b]) \<subseteq> set (A @ S)" using assms(2,4) by (simp add: le_supI1)
  ultimately show ?thesis ..
qed

lemma move_from_stash:
  fixes A S S' :: "nat list"
  assumes "distinct (A @ S)" "b \<in> set S" "distinct S'" "set S' \<subseteq> set S" "b \<notin> set S'"
  shows "distinct ((A @ [b]) @ S') \<and> set ((A @ [b]) @ S') \<subseteq> set (A @ S)"
proof -
  have 1: "distinct A" "set A \<inter> set S = {}" using assms(1) by simp_all
  have 2: "b \<notin> set A" using 1(2) assms(2) by blast
  have 3: "set A \<inter> set S' = {}" using 1(2) assms(4) by blast
  have "distinct ((A @ [b]) @ S')" using assms(3,5) 1(1) 2 3 by simp
  moreover have "set ((A @ [b]) @ S') \<subseteq> set (A @ S)" using assms(2,4) by (simp add: le_supI2)
  ultimately show ?thesis ..
qed

lemma vals_stepI:
  assumes "vals_ok attr v" "next_id v' = next_id v"
    "distinct (map snd attr' @ map snd (bufferAttributeStash v')) \<and>
     set (map snd attr' @ map snd (bufferAttributeStash v')) \<subseteq> set (map snd attr @ map snd (bufferAttributeStash v))"
  shows "vals_step attr v attr' v'"
proof -
  let ?L = "map snd attr @ map snd (bufferAttributeStash v)"
  let ?L' = "map snd attr' @ map snd (bufferAttributeStash v')"
  have d: "distinct ?L'" and s: "set ?L' \<subseteq> set ?L" using assms(3) by simp_all
  have lt: "\<forall>b\<in>set ?L. b < next_id v" using assms(1) by (simp add: vals_ok_def)
  have "\<forall>b\<in>set ?L'. b < next_id v'" unfolding assms(2) using lt s by (meson subsetD)
  moreover have "\<forall>b\<in>set ?L'. b \<in> set ?L \<or> next_id v \<le> b" using s by blast
  ultimately show ?thesis unfolding vals_step_def vals_ok_def using d assms(2) by simp
qed

lemma vals_step_refl: "vals_ok attr v \<Longrightarrow> vals_step attr v attr v"
  by (simp add: vals_step_def)

lemma vals_step_trans:
  "vals_step attr v attr1 v1 \<Longrightarrow> vals_step attr1 v1 attr2 v2 \<Longrightarrow> vals_step attr v attr2 v2"
proof -
  assume 1: "vals_step attr v attr1 v1" and 2: "vals_step attr1 v1 attr2 v2"
  let ?L = "map snd attr @ map snd (bufferAttributeStash v)"
  let ?L1 = "map snd attr1 @ map snd (bufferAttributeStash v1)"
  let ?L2 = "map snd attr2 @ map snd (bufferAttributeStash v2)"
  have n: "next_id v \<le> next_id v1" "next_id v1 \<le> next_id v2" and ok: "vals_ok attr2 v2"
    using 1 2 by (simp_all add: vals_step_def)
  have s1: "\<forall>b\<in>set ?L1. b \<in> set ?L \<or> next_id v \<le> b"
    using 1 by (simp add: vals_step_def)
  have s2: "\<forall>b\<in>set ?L2. b \<in> set ?L1 \<or> next_id v1 \<le> b"
    using 2 by (simp add: vals_step_def)
  have "\<forall>b\<in>set ?L2. b \<in> set ?L \<or> next_id v \<le> b"
  proof
    fix b assume "b \<in> set ?L2"
    then have "b \<in> set ?L1 \<or> next_id v1 \<le> b" using s2 by blast
    then show "b \<in> set ?L \<or> next_id v \<le> b" using s1 n(1) by (meson le_trans)
  qed
  then show ?thesis unfolding vals_step_def using n ok by simp
qed



lemma AUS_vals:
  assumes ok: "vals_ok attr v"
    and ex: "map_of attr key = None \<or> map_of (bufferAttributeStash v) key = None"
    and r: "allocateUpdateOrStashBufferAttribute raw key v attr = (e, v', attr')"
  shows "vals_step attr v attr' v'"
proof -
  let ?S = "bufferAttributeStash v"
  have dd: "distinct (map snd attr @ map snd ?S)" using ok by (simp add: vals_ok_def)
  then have d: "distinct (map snd attr)" "distinct (map snd ?S)" by simp_all
  show ?thesis
  proof (cases "map_of raw key")
    case None
    show ?thesis
    proof (cases "map_of attr key")
      case N2: None
      have "allocateUpdateOrStashBufferAttribute raw key v attr = (None, v, attr)"
        using None N2 by (simp add: allocateUpdateOrStashBufferAttribute_def)
      then have "v' = v" "attr' = attr" using r by simp_all
      then show ?thesis using ok by (simp add: vals_step_refl)
    next
      case (Some b)
      then have sn: "map_of ?S key = None" using ex by auto
      have "allocateUpdateOrStashBufferAttribute raw key v attr =
              (None, v\<lparr>bufferAttributeStash := AList.update key b ?S\<rparr>, AList.delete key attr)"
        using None Some sn by (simp add: allocateUpdateOrStashBufferAttribute_def)
      then have "v' = v\<lparr>bufferAttributeStash := AList.update key b ?S\<rparr>"
        and a': "attr' = AList.delete key attr" using r by simp_all
      then have v': "bufferAttributeStash v' = ?S @ [(key, b)]" "next_id v' = next_id v"
        using update_absent [OF sn] by simp_all
      have bin: "b \<in> set (map snd attr)" using map_of_SomeD [OF Some] by force
      have gone: "b \<notin> set (map snd attr')" unfolding a' using delete_value_gone [OF Some d(1)] .
      have sub: "set (map snd attr') \<subseteq> set (map snd attr)" unfolding a' by (rule delete_values_subset)
      have da: "distinct (map snd attr')" unfolding a' using d(1) by (rule delete_values_distinct)
      from move_to_stash [OF dd bin da sub gone]
      have "distinct (map snd attr' @ map snd (bufferAttributeStash v')) \<and>
            set (map snd attr' @ map snd (bufferAttributeStash v')) \<subseteq> set (map snd attr @ map snd ?S)"
        by (simp only: v'(1) map_append list.map snd_conv)
      then show ?thesis by (rule vals_stepI [OF ok v'(2)])
    qed
  next
    case (Some arr)
    show ?thesis
    proof (cases "map_of ?S key")
      case S: (Some b)
      then have an: "map_of attr key = None" using ex by auto
      have "allocateUpdateOrStashBufferAttribute raw key v attr =
              (None, v\<lparr>bufferAttributeStash := AList.delete key ?S, buffer_array := (buffer_array v)(b := arr)\<rparr>,
               AList.update key b attr)"
        using Some S an by (simp add: allocateUpdateOrStashBufferAttribute_def update_conv')
      then have "v' = v\<lparr>bufferAttributeStash := AList.delete key ?S, buffer_array := (buffer_array v)(b := arr)\<rparr>"
        and "attr' = AList.update key b attr" using r by simp_all
      then have v': "bufferAttributeStash v' = AList.delete key ?S" "next_id v' = next_id v"
        and a': "attr' = attr @ [(key, b)]"
        using update_absent [OF an] by simp_all
      have bin: "b \<in> set (map snd ?S)" using map_of_SomeD [OF S] by force
      have gone: "b \<notin> set (map snd (AList.delete key ?S))" using delete_value_gone [OF S d(2)] .
      have sub: "set (map snd (AList.delete key ?S)) \<subseteq> set (map snd ?S)" by (rule delete_values_subset)
      have ds: "distinct (map snd (AList.delete key ?S))" using d(2) by (rule delete_values_distinct)
      from move_from_stash [OF dd bin ds sub gone]
      have "distinct (map snd attr' @ map snd (bufferAttributeStash v')) \<and>
            set (map snd attr' @ map snd (bufferAttributeStash v')) \<subseteq> set (map snd attr @ map snd ?S)"
        by (simp only: v'(1) a' map_append list.map snd_conv)
      then show ?thesis by (rule vals_stepI [OF ok v'(2)])
    next
      case N: None
      show ?thesis
      proof (cases "map_of attr key")
        case A: (Some b)
        have "allocateUpdateOrStashBufferAttribute raw key v attr =
                (None, v\<lparr>buffer_array := (buffer_array v)(b := arr)\<rparr>, attr)"
          using Some N A by (simp add: allocateUpdateOrStashBufferAttribute_def)
        then have "v' = v\<lparr>buffer_array := (buffer_array v)(b := arr)\<rparr>" "attr' = attr"
          using r by simp_all
        then have "bufferAttributeStash v' = ?S" "next_id v' = next_id v" "attr' = attr" by simp_all
        then show ?thesis using ok by (simp add: vals_step_def vals_ok_def)
      next
        case A: None
        have "allocateUpdateOrStashBufferAttribute raw key v attr =
                (None, new_BufferAttribute key arr v, AList.update key (next_id v) attr)"
          using Some N A by (simp add: allocateUpdateOrStashBufferAttribute_def)
        then have "v' = new_BufferAttribute key arr v" "attr' = AList.update key (next_id v) attr"
          using r by simp_all
        then have v': "bufferAttributeStash v' = ?S" "next_id v' = Suc (next_id v)"
          and a': "attr' = attr @ [(key, next_id v)]"
          using update_absent [OF A] by (simp_all add: new_BufferAttribute_def)
        have lt: "\<forall>b\<in>set (map snd attr @ map snd ?S). b < next_id v"
          using ok by (simp add: vals_ok_def)
        then have nin: "next_id v \<notin> set (map snd attr @ map snd ?S)" by blast
        have "distinct (map snd attr' @ map snd ?S)" using dd nin by (simp add: a')
        moreover have "\<forall>b\<in>set (map snd attr' @ map snd ?S). b < Suc (next_id v)"
          using lt by (auto simp: a' less_Suc_eq)
        moreover have "\<forall>b\<in>set (map snd attr' @ map snd ?S).
                         b \<in> set (map snd attr @ map snd ?S) \<or> next_id v \<le> b"
          by (auto simp: a')
        ultimately show ?thesis unfolding vals_step_def vals_ok_def v' by simp
      qed
    qed
  qed
qed


lemma vals_step_ok: "vals_step attr v attr' v' \<Longrightarrow> vals_ok attr' v'"
  by (simp add: vals_step_def)

lemma excl_b_assert:
  "excl_b (book v attr) \<Longrightarrow> key \<in> set stashableKeys
     \<Longrightarrow> map_of attr key = None \<or> map_of (bufferAttributeStash v) key = None"
  by (simp add: book_def excl_def)

lemma update_stashable_vals:
  assumes "set ks \<subseteq> set stashableKeys" "excl_b (book v attr)" "vals_ok attr v"
  shows "vals_step attr v (snd (snd (update_stashable ks raw v attr)))
           (fst (snd (update_stashable ks raw v attr)))"
  using assms
proof (induction ks arbitrary: v attr)
  case Nil
  then show ?case by (simp add: vals_step_refl)
next
  case (Cons key ks)
  have k: "key \<in> set stashableKeys" and ks: "set ks \<subseteq> set stashableKeys"
    using Cons.prems(1) by simp_all
  from AUS_book [OF k Cons.prems(2), of raw] obtain v1 attr1 where
    r: "allocateUpdateOrStashBufferAttribute raw key v attr = (None, v1, attr1)"
    and b: "book v1 attr1 = aus_pure (map_of raw) key (book v attr)"
    by blast
  have e1: "excl_b (book v1 attr1)" unfolding b using Cons.prems(2) by (rule excl_aus_pure)
  have s1: "vals_step attr v attr1 v1"
    using AUS_vals [OF Cons.prems(3) excl_b_assert [OF Cons.prems(2) k] r] .
  have s2: "vals_step attr1 v1 (snd (snd (update_stashable ks raw v1 attr1)))
              (fst (snd (update_stashable ks raw v1 attr1)))"
    using Cons.IH [OF ks e1 vals_step_ok [OF s1]] .
  show ?case using vals_step_trans [OF s1 s2] r by simp
qed

lemma stash_present_keys_vals:
  assumes "excl_b (book v attr)" "vals_ok attr v"
  shows "vals_step attr v (fst (snd (snd (stash_present_keys ks raw v attr))))
           (fst (snd (stash_present_keys ks raw v attr)))"
  using assms
proof (induction ks arbitrary: v attr raw)
  case Nil
  then show ?case by (simp add: vals_step_refl)
next
  case (Cons key ks)
  show ?case
  proof (cases "key \<in> set stashableKeys")
    case False
    then show ?thesis using Cons.IH [OF Cons.prems, of raw] by simp
  next
    case k: True
    from AUS_book [OF k Cons.prems(1), of raw] obtain v1 attr1 where
      r: "allocateUpdateOrStashBufferAttribute raw key v attr = (None, v1, attr1)"
      and b: "book v1 attr1 = aus_pure (map_of raw) key (book v attr)"
      by blast
    have e1: "excl_b (book v1 attr1)" unfolding b using Cons.prems(1) by (rule excl_aus_pure)
    have s1: "vals_step attr v attr1 v1"
      using AUS_vals [OF Cons.prems(2) excl_b_assert [OF Cons.prems(1) k] r] .
    have s2: "vals_step attr1 v1
                (fst (snd (snd (stash_present_keys ks (AList.delete key raw) v1 attr1))))
                (fst (snd (stash_present_keys ks (AList.delete key raw) v1 attr1)))"
      using Cons.IH [OF e1 vals_step_ok [OF s1]] .
    show ?thesis using vals_step_trans [OF s1 s2] r k by simp
  qed
qed

lemma new_buffer_vals:
  assumes "vals_ok attr v"
  shows "vals_step attr v (AList.update k (next_id v) attr) (new_BufferAttribute k arr v)"
proof -
  let ?S = "map snd (bufferAttributeStash v)" and ?n = "next_id v"
  let ?A' = "map snd (AList.update k ?n attr)"
  have d: "distinct (map snd attr)" "distinct ?S" "set (map snd attr) \<inter> set ?S = {}"
    and lt: "\<forall>b\<in>set (map snd attr) \<union> set ?S. b < ?n"
    using assms by (simp_all add: vals_ok_def)
  have fresh: "?n \<notin> set (map snd attr)" "?n \<notin> set ?S" using lt by blast+
  have sub: "set ?A' \<subseteq> insert ?n (set (map snd attr))" by (rule update_values)
  have dA: "distinct ?A'" using d(1) fresh(1) by (rule update_values_distinct)
  have dis: "set ?A' \<inter> set ?S = {}" using sub d(3) fresh(2) by blast
  have f: "bufferAttributeStash (new_BufferAttribute k arr v) = bufferAttributeStash v"
    "next_id (new_BufferAttribute k arr v) = Suc ?n"
    by (simp_all add: new_BufferAttribute_def)
  have b1: "\<forall>b\<in>set (?A' @ ?S). b < Suc ?n"
  proof
    fix b assume "b \<in> set (?A' @ ?S)"
    then have "b = ?n \<or> b \<in> set (map snd attr) \<union> set ?S" using sub by auto
    then show "b < Suc ?n" using lt by (auto simp: less_Suc_eq)
  qed
  have b2: "\<forall>b\<in>set (?A' @ ?S). b \<in> set (map snd attr @ ?S) \<or> ?n \<le> b"
  proof
    fix b assume "b \<in> set (?A' @ ?S)"
    then have "b = ?n \<or> b \<in> set (map snd attr) \<union> set ?S" using sub by auto
    then show "b \<in> set (map snd attr @ ?S) \<or> ?n \<le> b" by auto
  qed
  have "distinct (?A' @ ?S)" using dA d(2) dis by simp
  then show ?thesis
    unfolding vals_step_def vals_ok_def f using b1 b2 by simp
qed

lemma allocate_remaining_vals:
  assumes "vals_ok attr v"
  shows "vals_step attr v (snd (allocate_remaining raw v attr)) (fst (allocate_remaining raw v attr))"
  using assms
proof (induction raw arbitrary: v attr)
  case Nil
  then show ?case by (simp add: vals_step_refl)
next
  case (Cons p raw)
  obtain k arr where p: "p = (k, arr)" by (cases p)
  have s1: "vals_step attr v (AList.update k (next_id v) attr) (new_BufferAttribute k arr v)"
    using Cons.prems by (rule new_buffer_vals)
  have s2: "vals_step (AList.update k (next_id v) attr) (new_BufferAttribute k arr v)
              (snd (allocate_remaining raw (new_BufferAttribute k arr v) (AList.update k (next_id v) attr)))
              (fst (allocate_remaining raw (new_BufferAttribute k arr v) (AList.update k (next_id v) attr)))"
    using Cons.IH [OF vals_step_ok [OF s1]] .
  show ?case using vals_step_trans [OF s1 s2] p by simp
qed

subsection \<open>Ownership\<close>

lemma option_list_simps [simp]: "option_list None = []" "option_list (Some x) = [x]"
  by (simp_all add: option_list_def)

lemma buffers_of_material [simp]: "buffers_of v (m\<lparr>mesh_material := x\<rparr>) = buffers_of v m"
  by (simp add: buffers_of_def)

lemma is_mesh_material [simp]: "is_mesh (m\<lparr>mesh_material := x\<rparr>) w = is_mesh m w"
  by (cases w) (simp_all add: is_mesh_def)

lemma is_mesh_ids:
  "map_option mesh_id w' = map_option mesh_id w \<Longrightarrow> is_mesh m w' = is_mesh m w"
  by (cases w; cases w') (simp_all add: is_mesh_def)

text \<open>What \<open>owns\<close> and \<open>groups_ok\<close> depend on.\<close>

lemma owns_cong:
  assumes "\<forall>m\<in>set ms. buffers_of v' m = buffers_of v m"
    and "bufferAttributeStash v' = bufferAttributeStash v" and "next_id v' = next_id v"
    and "map_option mesh_id (wireframeMesh v') = map_option mesh_id (wireframeMesh v)"
    and "map_option mesh_id (pointsMesh v') = map_option mesh_id (pointsMesh v)"
  shows "owns v' ms = owns v ms"
proof -
  have eq: "map (buffers_of v') ms = map (buffers_of v) ms" using assms(1) by simp
  have w: "is_mesh m (wireframeMesh v') = is_mesh m (wireframeMesh v)"
    "is_mesh m (pointsMesh v') = is_mesh m (pointsMesh v)" for m
    using is_mesh_ids [OF assms(4)] is_mesh_ids [OF assms(5)] by simp_all
  show ?thesis
    unfolding owns_def by (simp only: eq assms(2,3) w)
qed

lemma distinct_drop_mid: "distinct (X @ Y @ Z) \<Longrightarrow> distinct (X @ Z)"
  by auto

lemma owns_drop:
  assumes "owns v (xs @ ys @ zs)"
  shows "owns v (xs @ zs)"
proof -
  let ?S = "map snd (bufferAttributeStash v)"
  let ?c = "\<lambda>ms. concat (map (buffers_of v) ms)"
  have 1: "distinct (map mesh_id xs @ map mesh_id ys @ map mesh_id zs)"
    and 2: "distinct (map geometry xs @ map geometry ys @ map geometry zs)"
    and 3: "distinct (?c xs @ ?c ys @ (?c zs @ ?S))"
    and 4: "\<forall>m\<in>set (xs @ ys @ zs). mesh_id m < next_id v \<and> geometry m < next_id v \<and>
                   \<not> is_mesh m (wireframeMesh v) \<and> \<not> is_mesh m (pointsMesh v)"
    and 5: "\<forall>b\<in>set (?c xs @ ?c ys @ (?c zs @ ?S)). b < next_id v"
    using assms unfolding owns_def by simp_all
  have "distinct (map mesh_id (xs @ zs))" using distinct_drop_mid [OF 1] by simp
  moreover have "distinct (map geometry (xs @ zs))" using distinct_drop_mid [OF 2] by simp
  moreover have "distinct (?c (xs @ zs) @ ?S)" using distinct_drop_mid [OF 3] by simp
  moreover have "\<forall>m\<in>set (xs @ zs). mesh_id m < next_id v \<and> geometry m < next_id v \<and>
                   \<not> is_mesh m (wireframeMesh v) \<and> \<not> is_mesh m (pointsMesh v)"
    using 4 by auto
  moreover have "\<forall>b\<in>set (?c (xs @ zs) @ ?S). b < next_id v" using 5 by auto
  ultimately show ?thesis unfolding owns_def by blast
qed

lemma owns_material: "owns v (xs @ [m\<lparr>mesh_material := x\<rparr>] @ zs) = owns v (xs @ [m] @ zs)"
  unfolding owns_def by simp

lemma buffers_of_upd [simp]:
  "buffers_of (v\<lparr>scalarField := x1\<rparr>) = buffers_of v"
  "buffers_of (v\<lparr>vectorField := x2\<rparr>) = buffers_of v"
  "buffers_of (v\<lparr>modelMatrixVertices := x3\<rparr>) = buffers_of v"
  "buffers_of (v\<lparr>materialLibrary := x4\<rparr>) = buffers_of v"
  "buffers_of (v\<lparr>renderingPaused := x5\<rparr>) = buffers_of v"
  "buffers_of (v\<lparr>buffer_array := x6\<rparr>) = buffers_of v"
  "buffers_of (v\<lparr>meshes := x7\<rparr>) = buffers_of v"
  "buffers_of (v\<lparr>wireframeMesh := x8\<rparr>) = buffers_of v"
  "buffers_of (v\<lparr>pointsMesh := x9\<rparr>) = buffers_of v"
  "buffers_of (v\<lparr>vectorFieldMesh := x10\<rparr>) = buffers_of v"
  "buffers_of (v\<lparr>arrowMaterial := x11\<rparr>) = buffers_of v"
  "buffers_of (v\<lparr>controls_shaderMaterial := x12\<rparr>) = buffers_of v"
  "buffers_of (v\<lparr>ghostMeshes := x13\<rparr>) = buffers_of v"
  "buffers_of (v\<lparr>closeLog := x14\<rparr>) = buffers_of v"
  "buffers_of (v\<lparr>allocated := x15\<rparr>) = buffers_of v"
  "buffers_of (v\<lparr>currMesh := x16\<rparr>) = buffers_of v"
  "buffers_of (v\<lparr>next_id := x17\<rparr>) = buffers_of v"
  "buffers_of (v\<lparr>bufferAttributeStash := x18\<rparr>) = buffers_of v"
  by (simp_all add: buffers_of_def fun_eq_iff)

lemma owns_upd [simp]:
  "owns (v\<lparr>scalarField := x1\<rparr>) = owns v"
  "owns (v\<lparr>vectorField := x2\<rparr>) = owns v"
  "owns (v\<lparr>modelMatrixVertices := x3\<rparr>) = owns v"
  "owns (v\<lparr>materialLibrary := x4\<rparr>) = owns v"
  "owns (v\<lparr>renderingPaused := x5\<rparr>) = owns v"
  "owns (v\<lparr>buffer_array := x6\<rparr>) = owns v"
  "owns (v\<lparr>meshes := x7\<rparr>) = owns v"
  "owns (v\<lparr>vectorFieldMesh := x10\<rparr>) = owns v"
  "owns (v\<lparr>arrowMaterial := x11\<rparr>) = owns v"
  "owns (v\<lparr>controls_shaderMaterial := x12\<rparr>) = owns v"
  "owns (v\<lparr>ghostMeshes := x13\<rparr>) = owns v"
  "owns (v\<lparr>closeLog := x14\<rparr>) = owns v"
  "owns (v\<lparr>allocated := x15\<rparr>) = owns v"
  "owns (v\<lparr>currMesh := x16\<rparr>) = owns v"
  by (simp_all add: owns_def fun_eq_iff)

lemma groups_ok_upd [simp]:
  "groups_ok (v\<lparr>scalarField := x1\<rparr>) = groups_ok v"
  "groups_ok (v\<lparr>vectorField := x2\<rparr>) = groups_ok v"
  "groups_ok (v\<lparr>modelMatrixVertices := x3\<rparr>) = groups_ok v"
  "groups_ok (v\<lparr>materialLibrary := x4\<rparr>) = groups_ok v"
  "groups_ok (v\<lparr>renderingPaused := x5\<rparr>) = groups_ok v"
  "groups_ok (v\<lparr>buffer_array := x6\<rparr>) = groups_ok v"
  "groups_ok (v\<lparr>vectorFieldMesh := x10\<rparr>) = groups_ok v"
  "groups_ok (v\<lparr>arrowMaterial := x11\<rparr>) = groups_ok v"
  "groups_ok (v\<lparr>controls_shaderMaterial := x12\<rparr>) = groups_ok v"
  "groups_ok (v\<lparr>closeLog := x14\<rparr>) = groups_ok v"
  "groups_ok (v\<lparr>allocated := x15\<rparr>) = groups_ok v"
  "groups_ok (v\<lparr>bufferAttributeStash := x18\<rparr>) = groups_ok v"
  "groups_ok (v\<lparr>geom_attributes := x19\<rparr>) = groups_ok v"
  by (simp_all add: groups_ok_def)

lemma owned_upd [simp]:
  "owned (v\<lparr>scalarField := x1\<rparr>) = owned v"
  "owned (v\<lparr>vectorField := x2\<rparr>) = owned v"
  "owned (v\<lparr>modelMatrixVertices := x3\<rparr>) = owned v"
  "owned (v\<lparr>materialLibrary := x4\<rparr>) = owned v"
  "owned (v\<lparr>renderingPaused := x5\<rparr>) = owned v"
  "owned (v\<lparr>buffer_array := x6\<rparr>) = owned v"
  "owned (v\<lparr>meshes := x7\<rparr>) = owned v"
  "owned (v\<lparr>wireframeMesh := x8\<rparr>) = owned v"
  "owned (v\<lparr>pointsMesh := x9\<rparr>) = owned v"
  "owned (v\<lparr>arrowMaterial := x11\<rparr>) = owned v"
  "owned (v\<lparr>controls_shaderMaterial := x12\<rparr>) = owned v"
  "owned (v\<lparr>closeLog := x14\<rparr>) = owned v"
  "owned (v\<lparr>allocated := x15\<rparr>) = owned v"
  "owned (v\<lparr>next_id := x17\<rparr>) = owned v"
  "owned (v\<lparr>bufferAttributeStash := x18\<rparr>) = owned v"
  "owned (v\<lparr>geom_attributes := x19\<rparr>) = owned v"
  "owned (v\<lparr>ghostMeshes := gs\<rparr>) = gs @ option_list (currMesh v) @ option_list (vectorFieldMesh v)"
  "owned (v\<lparr>currMesh := c\<rparr>) = ghostMeshes v @ option_list c @ option_list (vectorFieldMesh v)"
  "owned (v\<lparr>vectorFieldMesh := f\<rparr>) = ghostMeshes v @ option_list (currMesh v) @ option_list f"
  by (simp_all add: owned_def)

lemma scene_ok_irrelevant [simp]:
  "scene_ok (v\<lparr>scalarField := x1\<rparr>) = scene_ok v"
  "scene_ok (v\<lparr>vectorField := x2\<rparr>) = scene_ok v"
  "scene_ok (v\<lparr>modelMatrixVertices := x3\<rparr>) = scene_ok v"
  "scene_ok (v\<lparr>materialLibrary := x4\<rparr>) = scene_ok v"
  "scene_ok (v\<lparr>renderingPaused := x5\<rparr>) = scene_ok v"
  "scene_ok (v\<lparr>buffer_array := x6\<rparr>) = scene_ok v"
  "scene_ok (v\<lparr>arrowMaterial := x11\<rparr>) = scene_ok v"
  "scene_ok (v\<lparr>controls_shaderMaterial := x12\<rparr>) = scene_ok v"
  "scene_ok (v\<lparr>closeLog := x14\<rparr>) = scene_ok v"
  "scene_ok (v\<lparr>allocated := x15\<rparr>) = scene_ok v"
  by (simp_all add: scene_ok_def)

lemma scene_ok_fields: "scene_ok (ViewerBase_fields lineMesh)"
proof -
  have "viewer_inv (ViewerBase_fields lineMesh)" by (rule fields_inv)
  moreover have "owns (ViewerBase_fields lineMesh) (owned (ViewerBase_fields lineMesh))"
    "groups_ok (ViewerBase_fields lineMesh)"
    by (simp_all add: owns_def groups_ok_def owned_def ViewerBase_fields_def)
  ultimately show ?thesis by (simp add: scene_ok_def)
qed

lemma owned_split: "owned v = ghostMeshes v @ option_list (currMesh v) @ option_list (vectorFieldMesh v)"
  by (simp add: owned_def)

lemma drop_ghosts:
  assumes "scene_ok v"
  shows "scene_ok (v\<lparr>ghostMeshes := []\<rparr>)"
proof -
  have "owns v ([] @ ghostMeshes v @ (option_list (currMesh v) @ option_list (vectorFieldMesh v)))"
    using assms by (simp add: scene_ok_def owned_def)
  then have "owns v ([] @ (option_list (currMesh v) @ option_list (vectorFieldMesh v)))"
    by (rule owns_drop)
  moreover have "groups_ok (v\<lparr>ghostMeshes := []\<rparr>)"
    using assms by (simp add: scene_ok_def groups_ok_def)
  ultimately show ?thesis using assms by (simp add: scene_ok_def)
qed

lemma drop_curr:
  assumes "scene_ok v"
  shows "scene_ok (v\<lparr>currMesh := None\<rparr>)"
proof -
  have "owns v (ghostMeshes v @ option_list (currMesh v) @ option_list (vectorFieldMesh v))"
    using assms by (simp add: scene_ok_def owned_def)
  then have "owns v (ghostMeshes v @ option_list (vectorFieldMesh v))"
    by (rule owns_drop)
  moreover have "groups_ok (v\<lparr>currMesh := None\<rparr>)"
    using assms by (simp add: scene_ok_def groups_ok_def)
  ultimately show ?thesis by (simp add: scene_ok_def)
qed

lemma drop_vf:
  assumes "scene_ok v"
  shows "scene_ok (v\<lparr>vectorFieldMesh := None\<rparr>)"
proof -
  have "owns v ((ghostMeshes v @ option_list (currMesh v)) @ option_list (vectorFieldMesh v) @ [])"
    using assms by (simp add: scene_ok_def owned_def)
  then have "owns v ((ghostMeshes v @ option_list (currMesh v)) @ [])"
    by (rule owns_drop)
  then show ?thesis using assms by (simp add: scene_ok_def)
qed

subsection \<open>Moving meshes between the groups\<close>

lemma scene_okI: "viewer_inv v \<Longrightarrow> owns v (owned v) \<Longrightarrow> groups_ok v \<Longrightarrow> scene_ok v"
  by (simp add: scene_ok_def)

lemma buffers_of_cong: "geom_attributes v' = geom_attributes v \<Longrightarrow> buffers_of v' = buffers_of v"
  by (simp add: buffers_of_def fun_eq_iff)

lemma owns_same:
  assumes "geom_attributes v' = geom_attributes v"
    and "bufferAttributeStash v' = bufferAttributeStash v" and "next_id v' = next_id v"
    and "wireframeMesh v' = wireframeMesh v" and "pointsMesh v' = pointsMesh v"
  shows "owns v' ms = owns v ms"
  by (rule owns_cong) (simp_all add: assms buffers_of_cong [OF assms(1)])

lemma owns_distinct_ids: "owns v ms \<Longrightarrow> distinct (map mesh_id ms)"
  by (simp add: owns_def)

lemma owns_bound: "owns v ms \<Longrightarrow> m \<in> set ms \<Longrightarrow> mesh_id m < next_id v"
  by (simp add: owns_def)

lemma ghost_curr:
  assumes ok: "scene_ok v" and cm: "currMesh v = Some cm"
    and f: "currMesh v' = None" "meshes v' = remove1 (mesh_id cm) (meshes v)"
       "ghostMeshes v' = ghostMeshes v @ [cm\<lparr>mesh_material := gm\<rparr>]"
       "vectorFieldMesh v' = vectorFieldMesh v" "geom_attributes v' = geom_attributes v"
       "bufferAttributeStash v' = bufferAttributeStash v" "next_id v' = next_id v"
       "wireframeMesh v' = wireframeMesh v" "pointsMesh v' = pointsMesh v"
  shows "scene_ok v'"
proof (rule scene_okI)
  show "viewer_inv v'" using f(1) by (rule no_mesh_inv)
  have o: "owns v (ghostMeshes v @ [cm] @ option_list (vectorFieldMesh v))"
    using ok cm by (simp add: scene_ok_def owned_def)
  have "owned v' = ghostMeshes v @ [cm\<lparr>mesh_material := gm\<rparr>] @ option_list (vectorFieldMesh v)"
    by (simp add: owned_def f)
  then show "owns v' (owned v')"
    using o by (simp only: owns_same [OF f(5,6,7,8,9)] owns_material)
  have g: "distinct (meshes v)" "\<forall>i\<in>set (meshes v). i < next_id v"
    "\<forall>g\<in>set (ghostMeshes v). mesh_id g \<notin> set (meshes v)"
    "\<forall>w\<in>set (option_list (wireframeMesh v) @ option_list (pointsMesh v)). mesh_id w < next_id v"
    using ok by (simp_all add: scene_ok_def groups_ok_def)
  show "groups_ok v'"
    unfolding groups_ok_def f using g by simp
qed

lemma ghost_vf:
  assumes ok: "scene_ok v" and cm: "currMesh v = None" and vf: "vectorFieldMesh v = Some m"
    and f: "currMesh v' = None" "meshes v' = remove1 (mesh_id m) (meshes v)"
       "ghostMeshes v' = ghostMeshes v @ [m\<lparr>mesh_material := gm\<rparr>]"
       "vectorFieldMesh v' = None" "geom_attributes v' = geom_attributes v"
       "bufferAttributeStash v' = bufferAttributeStash v" "next_id v' = next_id v"
       "wireframeMesh v' = wireframeMesh v" "pointsMesh v' = pointsMesh v"
  shows "scene_ok v'"
proof (rule scene_okI)
  show "viewer_inv v'" using f(1) by (rule no_mesh_inv)
  have o: "owns v (ghostMeshes v @ [m] @ [])"
    using ok cm vf by (simp add: scene_ok_def owned_def)
  have "owned v' = ghostMeshes v @ [m\<lparr>mesh_material := gm\<rparr>] @ []"
    by (simp add: owned_def f)
  then show "owns v' (owned v')"
    using o by (simp only: owns_same [OF f(5,6,7,8,9)] owns_material)
  have g: "distinct (meshes v)" "\<forall>i\<in>set (meshes v). i < next_id v"
    "\<forall>g\<in>set (ghostMeshes v). mesh_id g \<notin> set (meshes v)"
    "\<forall>w\<in>set (option_list (wireframeMesh v) @ option_list (pointsMesh v)). mesh_id w < next_id v"
    using ok by (simp_all add: scene_ok_def groups_ok_def)
  show "groups_ok v'"
    unfolding groups_ok_def f using g by simp
qed

text \<open>Hiding and showing the vector field mesh.\<close>

lemma hide_vf:
  assumes ok: "scene_ok v" and vf: "vectorFieldMesh v = Some m"
  shows "scene_ok (v\<lparr>meshes := remove1 (mesh_id m) (meshes v)\<rparr>)"
proof (rule scene_okI)
  let ?v' = "v\<lparr>meshes := remove1 (mesh_id m) (meshes v)\<rparr>"
  show "viewer_inv ?v'" using ok by (simp add: scene_ok_def)
  show "owns ?v' (owned ?v')" using ok by (simp add: scene_ok_def)
  have g: "distinct (meshes v)" "\<forall>i\<in>set (meshes v). i < next_id v"
    "\<forall>g\<in>set (ghostMeshes v). mesh_id g \<notin> set (meshes v)"
    "\<forall>c\<in>set (option_list (currMesh v)). mesh_id c \<in> set (meshes v)"
    "\<forall>w\<in>set (option_list (wireframeMesh v) @ option_list (pointsMesh v)). mesh_id w < next_id v"
    using ok by (simp_all add: scene_ok_def groups_ok_def)
  have "distinct (map mesh_id (owned v))" using ok by (simp add: scene_ok_def owns_def)
  then have ne: "\<forall>c\<in>set (option_list (currMesh v)). mesh_id c \<noteq> mesh_id m"
    using vf by (cases "currMesh v") (auto simp: owned_def)
  show "groups_ok ?v'"
    unfolding groups_ok_def using g ne by simp
qed

lemma show_vf:
  assumes ok: "scene_ok v" and vf: "vectorFieldMesh v = Some m" and new: "mesh_id m \<notin> set (meshes v)"
  shows "scene_ok (v\<lparr>meshes := meshes v @ [mesh_id m]\<rparr>)"
proof (rule scene_okI)
  let ?v' = "v\<lparr>meshes := meshes v @ [mesh_id m]\<rparr>"
  show "viewer_inv ?v'" using ok by (simp add: scene_ok_def)
  show "owns ?v' (owned ?v')" using ok by (simp add: scene_ok_def)
  have g: "distinct (meshes v)" "\<forall>i\<in>set (meshes v). i < next_id v"
    "\<forall>g\<in>set (ghostMeshes v). mesh_id g \<notin> set (meshes v)"
    "\<forall>c\<in>set (option_list (currMesh v)). mesh_id c \<in> set (meshes v)"
    "\<forall>w\<in>set (option_list (wireframeMesh v) @ option_list (pointsMesh v)). mesh_id w < next_id v"
    using ok by (simp_all add: scene_ok_def groups_ok_def)
  have o: "owns v (owned v)" using ok by (simp add: scene_ok_def)
  have d: "distinct (map mesh_id (owned v))" using o by (rule owns_distinct_ids)
  have nin: "mesh_id m \<notin> mesh_id ` set (ghostMeshes v)"
    using d vf by (simp add: owned_def)
  have ne: "\<forall>g\<in>set (ghostMeshes v). mesh_id g \<noteq> mesh_id m"
  proof
    fix g assume "g \<in> set (ghostMeshes v)"
    then have "mesh_id g \<in> mesh_id ` set (ghostMeshes v)" by (rule imageI)
    then show "mesh_id g \<noteq> mesh_id m" using nin by metis
  qed
  have "m \<in> set (owned v)" using vf by (simp add: owned_def)
  then have lt: "mesh_id m < next_id v" using o by (simp add: owns_def)
  show "groups_ok ?v'"
    unfolding groups_ok_def using g ne lt new by auto
qed

lemma ghostVectorField_scene:
  assumes ok: "scene_ok v" and cm: "currMesh v = None" and vf: "vectorFieldMesh v = Some m"
    and shown: "mesh_id m \<in> set (meshes v)"
  shows "scene_ok (snd (ghostVectorField m v))"
proof -
  let ?i = "mat_id (mesh_material m)"
  let ?m' = "m\<lparr>mesh_material := make_transparent ?i (mesh_material m)\<rparr>"
  let ?v1 = "v\<lparr>vectorFieldMesh := None,
               arrowMaterial := map_option (make_transparent ?i) (arrowMaterial v),
               controls_shaderMaterial := map_option (make_transparent ?i) (controls_shaderMaterial v)\<rparr>"
  have ok1: "scene_ok ?v1" using drop_vf [OF ok] by simp
  show ?thesis
  proof (cases "map_of (geom_attributes v (geometry m)) ''arrowColor''")
    case None
    then have "snd (ghostVectorField m v) = ?v1"
      by (simp add: ghostVectorField_def Let_def)
    then show ?thesis using ok1 by simp
  next
    case (Some b)
    show ?thesis
    proof (cases "set_alpha (buffer_array v b)")
      case (Inl e)
      then have "snd (ghostVectorField m v) = ?v1"
        using Some by (simp add: ghostVectorField_def Let_def)
      then show ?thesis using ok1 by simp
    next
      case (Inr colors)
      let ?v' = "snd (ghostVectorField m v)"
      have r: "?v' = ?v1\<lparr>buffer_array := (buffer_array v)(b := colors),
                         meshes := remove1 (mesh_id m) (meshes v),
                         ghostMeshes := ghostMeshes v @ [?m']\<rparr>"
        using Some Inr shown
        by (simp add: ghostVectorField_def Let_def group_remove_def ghost_add_def)
      show ?thesis
        by (rule ghost_vf [OF ok cm vf, where gm="make_transparent ?i (mesh_material m)"])
          (simp_all add: r cm)
    qed
  qed
qed

lemma ghostOrClean_scene:
  assumes ok: "scene_ok v"
  shows "scene_ok (snd (ghostOrClean a v))"
proof (cases "if preserveExisting a then currMesh v else None")
  case None
  then have "snd (ghostOrClean a v) = snd (cleanMeshes v)"
    by (simp add: ghostOrClean_def)
  then show ?thesis using drop_ghosts [OF ok] by (simp add: cleanMeshes_run)
next
  case (Some cm)
  then have p: "preserveExisting a" and cm: "currMesh v = Some cm"
    by (simp_all split: if_splits)
  obtain gm lib where gmat: "ghostMaterial (materialLibrary v) (mesh_material cm) = (gm, lib)"
    by (cases "ghostMaterial (materialLibrary v) (mesh_material cm)")
  have inm: "mesh_id cm \<in> set (meshes v)"
    using ok cm by (simp add: scene_ok_def groups_ok_def)
  let ?v1 = "v\<lparr>currMesh := None, materialLibrary := lib,
               meshes := remove1 (mesh_id cm) (meshes v),
               ghostMeshes := ghostMeshes v @ [cm\<lparr>mesh_material := gm\<rparr>]\<rparr>"
  have ok1: "scene_ok ?v1"
    by (rule ghost_curr [OF ok cm, where gm=gm]) simp_all
  have step: "ghostOrClean a v =
                (case vectorFieldMesh v of
                   Some oldVFMesh \<Rightarrow>
                     (if mesh_id oldVFMesh \<in> set (remove1 (mesh_id cm) (meshes v))
                      then ghostVectorField oldVFMesh ?v1
                      else (None, ?v1))
                 | None \<Rightarrow> (None, ?v1))"
    unfolding ghostOrClean_def
    by (simp add: p cm gmat Let_def group_remove_def ghost_add_def inm cong: option.case_cong if_cong)
  show ?thesis
  proof (cases "vectorFieldMesh v")
    case None
    then show ?thesis unfolding step using ok1 by simp
  next
    case (Some vfm)
    show ?thesis
    proof (cases "mesh_id vfm \<in> set (remove1 (mesh_id cm) (meshes v))")
      case False
      then show ?thesis unfolding step using ok1 Some by simp
    next
      case True
      have "scene_ok (snd (ghostVectorField vfm ?v1))"
        by (rule ghostVectorField_scene [OF ok1]) (simp_all add: Some True)
      then show ?thesis unfolding step using Some True by simp
    qed
  qed
qed

subsection \<open>New and updated meshes\<close>

lemma swap_two:
  fixes X A Z S A' S' :: "nat list"
  assumes d: "distinct (X @ A @ Z @ S)" and lt: "\<forall>x\<in>set (X @ Z). x < n"
    and d': "distinct (A' @ S')" and src: "\<forall>b\<in>set (A' @ S'). b \<in> set (A @ S) \<or> n \<le> b"
  shows "distinct (X @ A' @ Z @ S')"
proof -
  have 1: "distinct X" "distinct Z" "set X \<inter> set Z = {}"
    "set X \<inter> (set A \<union> set S) = {}" "set Z \<inter> (set A \<union> set S) = {}"
    using d by auto
  have 2: "distinct A'" "distinct S'" "set A' \<inter> set S' = {}" using d' by auto
  have 3: "b \<notin> set X \<and> b \<notin> set Z" if "b \<in> set A' \<union> set S'" for b
  proof -
    have "b \<in> set A \<union> set S \<or> n \<le> b" using src that by auto
    then show ?thesis
    proof
      assume "b \<in> set A \<union> set S"
      then show ?thesis using 1(4,5) by blast
    next
      assume nb: "n \<le> b"
      have "x < n" if "x \<in> set X \<union> set Z" for x using lt that by simp
      then show ?thesis using nb by (metis Un_iff not_le)
    qed
  qed
  have 4: "set X \<inter> set A' = {}" "set X \<inter> set S' = {}" "set A' \<inter> set Z = {}" "set Z \<inter> set S' = {}"
    using 3 by blast+
  show ?thesis using 1(1,2,3) 2 4 by auto
qed

lemma swap_bound:
  fixes X A Z S A' S' :: "nat list"
  assumes "\<forall>x\<in>set (X @ A @ Z @ S). x < n" "n \<le> n'" "\<forall>b\<in>set (A' @ S'). b < n'"
  shows "\<forall>x\<in>set (X @ A' @ Z @ S'). x < n'"
proof
  fix x assume "x \<in> set (X @ A' @ Z @ S')"
  then have "x \<in> set X \<union> set Z \<or> x \<in> set (A' @ S')" by auto
  then show "x < n'"
  proof
    assume "x \<in> set X \<union> set Z"
    then have "x < n" using assms(1) by auto
    then show ?thesis using assms(2) by simp
  next
    assume "x \<in> set (A' @ S')"
    then show ?thesis using assms(3) by blast
  qed
qed

lemma owns_rebuild:
  assumes o: "owns v (G @ C @ V)"
    and keep: "\<forall>x\<in>set (G @ V). buffers_of v' x = buffers_of v x"
    and n: "next_id v \<le> next_id v'"
    and w: "map_option mesh_id (wireframeMesh v') = map_option mesh_id (wireframeMesh v)"
           "map_option mesh_id (pointsMesh v') = map_option mesh_id (pointsMesh v)"
    and dv: "distinct (concat (map (buffers_of v') C') @ map snd (bufferAttributeStash v'))"
    and src: "\<forall>b\<in>set (concat (map (buffers_of v') C') @ map snd (bufferAttributeStash v')).
                (b \<in> set (concat (map (buffers_of v) C) @ map snd (bufferAttributeStash v)) \<or> next_id v \<le> b)"
    and bnd: "\<forall>b\<in>set (concat (map (buffers_of v') C') @ map snd (bufferAttributeStash v')). b < next_id v'"
    and ids: "distinct (map mesh_id C')" "distinct (map geometry C')"
    and cs: "\<forall>c\<in>set C'. (mesh_id c \<in> set (map mesh_id C) \<or> next_id v \<le> mesh_id c) \<and> mesh_id c < next_id v' \<and>
                 (geometry c \<in> set (map geometry C) \<or> next_id v \<le> geometry c) \<and> geometry c < next_id v' \<and>
                 \<not> is_mesh c (wireframeMesh v) \<and> \<not> is_mesh c (pointsMesh v)"
  shows "owns v' (G @ C' @ V)"
proof -
  let ?S = "map snd (bufferAttributeStash v)" and ?S' = "map snd (bufferAttributeStash v')"
  let ?c = "\<lambda>ms. concat (map (buffers_of v) ms)" and ?c' = "\<lambda>ms. concat (map (buffers_of v') ms)"
  have o1: "distinct (map mesh_id G @ map mesh_id C @ map mesh_id V @ [])"
    and o2: "distinct (map geometry G @ map geometry C @ map geometry V @ [])"
    and o3: "distinct (?c G @ ?c C @ ?c V @ ?S)"
    and o4: "\<forall>m\<in>set (G @ C @ V). mesh_id m < next_id v \<and> geometry m < next_id v \<and>
                   \<not> is_mesh m (wireframeMesh v) \<and> \<not> is_mesh m (pointsMesh v)"
    and o5: "\<forall>b\<in>set (?c G @ ?c C @ ?c V @ ?S). b < next_id v"
    using o unfolding owns_def by simp_all
  have kG: "?c' G = ?c G" and kV: "?c' V = ?c V"
    using keep by (simp_all cong: map_cong)
  have wm: "is_mesh m (wireframeMesh v') = is_mesh m (wireframeMesh v)"
    "is_mesh m (pointsMesh v') = is_mesh m (pointsMesh v)" for m
    using is_mesh_ids [OF w(1)] is_mesh_ids [OF w(2)] by simp_all
  have lt_id: "\<forall>x\<in>set (map mesh_id G @ map mesh_id V). x < next_id v"
    and lt_geo: "\<forall>x\<in>set (map geometry G @ map geometry V). x < next_id v"
    using o4 by auto
  have lt_buf: "\<forall>x\<in>set (?c G @ ?c V). x < next_id v" using o5 by auto
  have c1: "\<forall>b\<in>set (map mesh_id C' @ []). b \<in> set (map mesh_id C @ []) \<or> next_id v \<le> b"
    and c2: "\<forall>b\<in>set (map geometry C' @ []). b \<in> set (map geometry C @ []) \<or> next_id v \<le> b"
    using cs by auto
  have d1: "distinct (map mesh_id G @ map mesh_id C' @ map mesh_id V @ [])"
    by (rule swap_two [OF o1 lt_id _ c1]) (simp add: ids)
  have d2: "distinct (map geometry G @ map geometry C' @ map geometry V @ [])"
    by (rule swap_two [OF o2 lt_geo _ c2]) (simp add: ids)
  have d3: "distinct (?c G @ ?c' C' @ ?c V @ ?S')"
    by (rule swap_two [OF o3 lt_buf dv src])
  have b3: "\<forall>x\<in>set (?c G @ ?c' C' @ ?c V @ ?S'). x < next_id v'"
    by (rule swap_bound [OF o5 n bnd])
  have b4: "\<forall>m\<in>set (G @ C' @ V). mesh_id m < next_id v' \<and> geometry m < next_id v' \<and>
                   \<not> is_mesh m (wireframeMesh v') \<and> \<not> is_mesh m (pointsMesh v')"
  proof
    fix m assume "m \<in> set (G @ C' @ V)"
    then have "m \<in> set (G @ V) \<or> m \<in> set C'" by auto
    then show "mesh_id m < next_id v' \<and> geometry m < next_id v' \<and>
                   \<not> is_mesh m (wireframeMesh v') \<and> \<not> is_mesh m (pointsMesh v')"
    proof
      assume "m \<in> set (G @ V)"
      then have "mesh_id m < next_id v \<and> geometry m < next_id v \<and>
                   \<not> is_mesh m (wireframeMesh v) \<and> \<not> is_mesh m (pointsMesh v)"
        using o4 by auto
      then show ?thesis using n by (simp add: wm)
    next
      assume "m \<in> set C'"
      then show ?thesis using cs by (simp add: wm)
    qed
  qed
  have e3: "concat (map (buffers_of v') (G @ C' @ V)) @ ?S' = ?c G @ ?c' C' @ ?c V @ ?S'"
    using kG kV by simp
  show ?thesis
    unfolding owns_def e3 using d1 d2 d3 b3 b4 by simp
qed

lemma scene_ok_cong:
  assumes "ghostMeshes v' = ghostMeshes v" "currMesh v' = currMesh v"
    "vectorFieldMesh v' = vectorFieldMesh v" "geom_attributes v' = geom_attributes v"
    "bufferAttributeStash v' = bufferAttributeStash v" "next_id v' = next_id v"
    "meshes v' = meshes v" "wireframeMesh v' = wireframeMesh v" "pointsMesh v' = pointsMesh v"
  shows "scene_ok v' = scene_ok v"
proof -
  have "viewer_inv v' = viewer_inv v" by (rule viewer_inv_cong) (simp_all add: assms)
  moreover have "owned v' = owned v" by (simp add: owned_def assms)
  moreover have "owns v' (owned v) = owns v (owned v)" by (rule owns_same) (simp_all add: assms)
  moreover have "groups_ok v' = groups_ok v" by (simp add: groups_ok_def assms)
  ultimately show ?thesis by (simp add: scene_ok_def)
qed

lemma not_overlay:
  assumes "\<forall>w\<in>set (option_list (wireframeMesh v) @ option_list (pointsMesh v)). mesh_id w < n"
    and "n \<le> mesh_id m"
  shows "\<not> is_mesh m (wireframeMesh v) \<and> \<not> is_mesh m (pointsMesh v)"
  using assms by (cases "wireframeMesh v"; cases "pointsMesh v") (auto simp: is_mesh_def)

lemma new_vf:
  assumes ok: "scene_ok v" and vf: "vectorFieldMesh v = None" and vi: "viewer_inv v'"
    and f: "geom_attributes v' = (geom_attributes v)(Suc (next_id v) := [(k, next_id v)])"
       "next_id v' = Suc (Suc (Suc (Suc (next_id v))))"
       "vectorFieldMesh v' = Some m" "mesh_id m = Suc (Suc (next_id v))" "geometry m = Suc (next_id v)"
       "meshes v' = meshes v @ [Suc (Suc (next_id v))]"
       "ghostMeshes v' = ghostMeshes v" "currMesh v' = currMesh v"
       "bufferAttributeStash v' = bufferAttributeStash v"
       "wireframeMesh v' = wireframeMesh v" "pointsMesh v' = pointsMesh v"
  shows "scene_ok v'"
proof (rule scene_okI [OF vi])
  let ?n = "next_id v"
  let ?G = "ghostMeshes v @ option_list (currMesh v)"
  have o: "owns v (?G @ [] @ [])" using ok vf by (simp add: scene_ok_def owned_def)
  have g: "distinct (meshes v)" "\<forall>i\<in>set (meshes v). i < ?n"
    "\<forall>g\<in>set (ghostMeshes v). mesh_id g \<notin> set (meshes v)"
    "\<forall>c\<in>set (option_list (currMesh v)). mesh_id c \<in> set (meshes v)"
    and gw: "\<forall>w\<in>set (option_list (wireframeMesh v) @ option_list (pointsMesh v)). mesh_id w < ?n"
    using ok by (simp_all add: scene_ok_def groups_ok_def)
  have geo: "\<forall>x\<in>set ?G. geometry x < ?n" using o by (simp add: owns_def)
  have keep: "\<forall>x\<in>set (?G @ []). buffers_of v' x = buffers_of v x"
  proof
    fix x assume "x \<in> set (?G @ [])"
    then have "geometry x < ?n" using geo by simp
    then show "buffers_of v' x = buffers_of v x" by (simp add: buffers_of_def f(1))
  qed
  have bm: "buffers_of v' m = [?n]" by (simp add: buffers_of_def f(1,5))
  have st: "\<forall>b\<in>set (map snd (bufferAttributeStash v)). b < ?n"
    and ds: "distinct (map snd (bufferAttributeStash v))"
    using o by (simp_all add: owns_def)
  have nst: "?n \<notin> set (map snd (bufferAttributeStash v))" using st by blast
  have "owns v' (?G @ [m] @ [])"
  proof (rule owns_rebuild [OF o keep])
    show "next_id v \<le> next_id v'" by (simp add: f(2))
    show "map_option mesh_id (wireframeMesh v') = map_option mesh_id (wireframeMesh v)"
      "map_option mesh_id (pointsMesh v') = map_option mesh_id (pointsMesh v)"
      by (simp_all add: f)
    show "distinct (concat (map (buffers_of v') [m]) @ map snd (bufferAttributeStash v'))"
      using ds nst by (simp add: bm f(9))
    show "\<forall>b\<in>set (concat (map (buffers_of v') [m]) @ map snd (bufferAttributeStash v')).
            b \<in> set (concat (map (buffers_of v) []) @ map snd (bufferAttributeStash v)) \<or> next_id v \<le> b"
      by (simp add: bm f(9))
    show "\<forall>b\<in>set (concat (map (buffers_of v') [m]) @ map snd (bufferAttributeStash v')). b < next_id v'"
      using st by (auto simp: bm f(9) f(2))
    show "distinct (map mesh_id [m])" "distinct (map geometry [m])" by simp_all
    have "\<not> is_mesh m (wireframeMesh v) \<and> \<not> is_mesh m (pointsMesh v)"
      by (rule not_overlay [OF gw]) (simp add: f(4))
    then show "\<forall>c\<in>set [m]. (mesh_id c \<in> set (map mesh_id []) \<or> next_id v \<le> mesh_id c) \<and>
            mesh_id c < next_id v' \<and>
            (geometry c \<in> set (map geometry []) \<or> next_id v \<le> geometry c) \<and>
            geometry c < next_id v' \<and>
            \<not> is_mesh c (wireframeMesh v) \<and> \<not> is_mesh c (pointsMesh v)"
      by (simp add: f(2,4,5))
  qed
  moreover have "owned v' = ?G @ [m] @ []" by (simp add: owned_def f)
  ultimately show "owns v' (owned v')" by simp
  have gl: "\<forall>g\<in>set (ghostMeshes v). mesh_id g < ?n" using o by (simp add: owns_def)
  have fresh: "Suc (Suc ?n) \<notin> set (meshes v)" using g(2) by fastforce
  have gh: "\<forall>g\<in>set (ghostMeshes v). mesh_id g \<noteq> Suc (Suc ?n)" using gl by fastforce
  show "groups_ok v'"
    unfolding groups_ok_def f using g gw fresh gh by (auto simp: less_Suc_eq)
qed

lemma getArrows_existing:
  "fst (getArrows vf mat (Some m) v) = m"
  "scene_ok (snd (getArrows vf mat (Some m) v)) = scene_ok v"
  "meshes (snd (getArrows vf mat (Some m) v)) = meshes v"
  "vectorFieldMesh (snd (getArrows vf mat (Some m) v)) = vectorFieldMesh v"
  by (simp_all add: getArrows_def split: option.splits)

lemma vectorFieldStep_scene:
  assumes ok: "scene_ok v"
  shows "scene_ok (snd (vectorFieldStep a v))"
proof (cases "vectorField v")
  case None
  show ?thesis
  proof (cases "vectorFieldMesh v")
    case N2: None
    then show ?thesis using None ok by (simp add: vectorFieldStep_def)
  next
    case (Some m)
    show ?thesis
    proof (cases "mesh_id m \<in> set (meshes v)")
      case True
      then have "snd (vectorFieldStep a v) = v\<lparr>meshes := remove1 (mesh_id m) (meshes v)\<rparr>"
        using None Some by (simp add: vectorFieldStep_def group_remove_def)
      then show ?thesis using hide_vf [OF ok Some] by simp
    next
      case False
      then show ?thesis using None Some ok by (simp add: vectorFieldStep_def)
    qed
  qed
next
  case (Some vf)
  show ?thesis
  proof (cases "validateSize (vf_domainType vf) (length (vf_vectors vf)) (length (vertices a)) (length (idxs a))")
    case (Some e)
    then show ?thesis using \<open>vectorField v = Some vf\<close> ok by (simp add: vectorFieldStep_def)
  next
    case None
    show ?thesis
    proof (cases "vectorFieldMesh v")
      case (Some m)
      obtain v1 where ga: "getArrows vf (arrowMaterial v) (Some m) v = (m, v1)"
        using getArrows_existing(1) [of vf "arrowMaterial v" m v]
        by (cases "getArrows vf (arrowMaterial v) (Some m) v") simp
      have v1: "v1 = snd (getArrows vf (arrowMaterial v) (Some m) v)" using ga by simp
      let ?v2 = "v1\<lparr>vectorFieldMesh := Some m, arrowMaterial := Some (mesh_material m),
                     controls_shaderMaterial := Some (mesh_material m)\<rparr>"
      have ok1: "scene_ok v1" using ok by (simp add: v1 getArrows_existing)
      have "scene_ok ?v2 = scene_ok v1"
        by (rule scene_ok_cong) (simp_all add: v1 getArrows_existing Some)
      then have ok2: "scene_ok ?v2" using ok1 by simp
      have vf2: "vectorFieldMesh ?v2 = Some m" by simp
      have r: "snd (vectorFieldStep a v) =
                 (if mesh_id m \<notin> set (meshes ?v2) then ?v2\<lparr>meshes := meshes ?v2 @ [mesh_id m]\<rparr> else ?v2)"
        using \<open>vectorField v = Some vf\<close> None Some ga
        by (simp add: vectorFieldStep_def Let_def group_add_def)
      show ?thesis
      proof (cases "mesh_id m \<in> set (meshes ?v2)")
        case True
        have "snd (vectorFieldStep a v) = ?v2"
          unfolding r by (rule if_not_P) (use True in simp)
        then show ?thesis using ok2 by (simp only:)
      next
        case False
        have "snd (vectorFieldStep a v) = ?v2\<lparr>meshes := meshes ?v2 @ [mesh_id m]\<rparr>"
          unfolding r by (rule if_P) (use False in simp)
        moreover have "scene_ok (?v2\<lparr>meshes := meshes ?v2 @ [mesh_id m]\<rparr>)"
          using ok2 vf2 False by (rule show_vf)
        ultimately show ?thesis by (simp only:)
      qed
    next
      case N2: None
      let ?n = "next_id v"
      let ?sh = "case arrowMaterial v of Some sm \<Rightarrow> sm
                 | None \<Rightarrow> \<lparr>mat_id = Suc (Suc (Suc ?n)), isLine = False, vertexColors = ''NoColors'',
                            map_tex = None, color = None, transparent = False, opacity = 1\<rparr>"
      let ?m = "\<lparr>mesh_id = Suc (Suc ?n), geometry = Suc ?n, mesh_material = ?sh\<rparr>"
      have fresh: "Suc (Suc ?n) \<notin> set (meshes v)"
      proof -
        have "\<forall>i\<in>set (meshes v). i < ?n" using ok by (simp add: scene_ok_def groups_ok_def)
        then show ?thesis by fastforce
      qed
      let ?v' = "snd (vectorFieldStep a v)"
      have vi: "viewer_inv ?v'"
        using ok by (intro vectorFieldStep_inv) (simp add: scene_ok_def)
      have r: "?v' = v\<lparr>buffer_array := (buffer_array v)(?n := FloatArray (vf_arrowColors vf)),
                       geom_attributes := (geom_attributes v)(Suc ?n := [(''arrowColor'', ?n)]),
                       next_id := Suc (Suc (Suc (Suc ?n))),
                       vectorFieldMesh := Some ?m, arrowMaterial := Some ?sh,
                       controls_shaderMaterial := Some ?sh,
                       meshes := meshes v @ [Suc (Suc ?n)]\<rparr>"
        using \<open>vectorField v = Some vf\<close> None N2 fresh
        by (simp add: vectorFieldStep_def getArrows_def Let_def group_add_def)
      show ?thesis
        by (rule new_vf [OF ok N2 vi, where m="?m" and k="''arrowColor''"]) (simp_all add: r)
    qed
  qed
qed

lemma repointOverlays_scene: "scene_ok (repointOverlays v) = scene_ok v"
proof (cases "currMesh v")
  case None
  then show ?thesis by (simp add: repointOverlays_def)
next
  case (Some cm)
  let ?v' = "repointOverlays v"
  have r: "?v' = v\<lparr>wireframeMesh := map_option (\<lambda>w. w\<lparr>geometry := geometry cm\<rparr>) (wireframeMesh v),
                    pointsMesh := map_option (\<lambda>w. w\<lparr>geometry := geometry cm\<rparr>) (pointsMesh v)\<rparr>"
    using Some by (simp add: repointOverlays_def)
  have w: "map_option mesh_id (wireframeMesh ?v') = map_option mesh_id (wireframeMesh v)"
    "map_option mesh_id (pointsMesh ?v') = map_option mesh_id (pointsMesh v)"
    unfolding r by (cases "wireframeMesh v"; cases "pointsMesh v"; simp)+
  have "viewer_inv ?v' = viewer_inv v" by (rule repointOverlays_inv)
  moreover have "owned ?v' = owned v" unfolding r by simp
  moreover have "owns ?v' (owned v) = owns v (owned v)"
    by (rule owns_cong) (simp_all add: w, simp_all add: r)
  moreover have "groups_ok ?v' = groups_ok v"
    unfolding r groups_ok_def
    by (cases "wireframeMesh v"; cases "pointsMesh v") simp_all
  ultimately show ?thesis by (simp add: scene_ok_def)
qed

lemma owns_mid_vals:
  assumes "owns v (G @ C @ V)"
  shows "distinct (concat (map (buffers_of v) C) @ map snd (bufferAttributeStash v))"
    and "\<forall>b\<in>set (concat (map (buffers_of v) C) @ map snd (bufferAttributeStash v)). b < next_id v"
proof -
  let ?S = "map snd (bufferAttributeStash v)"
  let ?c = "\<lambda>ms. concat (map (buffers_of v) ms)"
  have 3: "distinct (?c G @ (?c C @ ?c V @ ?S))"
    and 5: "\<forall>b\<in>set (?c G @ ?c C @ ?c V @ ?S). b < next_id v"
    using assms unfolding owns_def by simp_all
  have "distinct (?c C @ ?c V @ ?S)" using 3 by (simp only: distinct_append)
  then show "distinct (?c C @ ?S)" by (rule distinct_drop_mid)
  show "\<forall>b\<in>set (?c C @ ?S). b < next_id v" using 5 by auto
qed

lemma build_new_scene:
  assumes ok: "scene_ok v" and cm: "currMesh v = None"
  shows "scene_ok (snd (buildOrUpdateMesh raw mat v))"
proof -
  let ?G = "ghostMeshes v" and ?V = "option_list (vectorFieldMesh v)"
  have inv: "viewer_inv v" and o: "owns v (?G @ [] @ ?V)"
    using ok cm by (simp_all add: scene_ok_def owned_def)
  have g: "distinct (meshes v)" "\<forall>i\<in>set (meshes v). i < next_id v"
    "\<forall>g\<in>set (ghostMeshes v). mesh_id g \<notin> set (meshes v)"
    and gw: "\<forall>w\<in>set (option_list (wireframeMesh v) @ option_list (pointsMesh v)). mesh_id w < next_id v"
    using ok by (simp_all add: scene_ok_def groups_ok_def)
  have ok0: "vals_ok [] v"
    using owns_mid_vals [OF o] by (simp add: vals_ok_def)
  have e0: "excl_b (book v [])" by (simp add: book_def excl_def)
  from stash_present_keys_book [OF e0, of "map fst raw" raw] obtain v1 attr1 raw1 where
    1: "stash_present_keys (map fst raw) raw v [] = (None, v1, attr1, raw1)"
    and s1: "same_scene v v1"
    by blast
  obtain v2 attr2 where 2: "allocate_remaining raw1 v1 attr1 = (v2, attr2)"
    by (cases "allocate_remaining raw1 v1 attr1")
  have s2: "same_scene v1 v2" using allocate_remaining_frame [of raw1 v1 attr1] 2 by auto
  note f2 = same_scene_fields [OF same_scene_trans [OF s1 s2]]
  have st1: "vals_step [] v attr1 v1"
    using stash_present_keys_vals [OF e0 ok0, of "map fst raw" raw] 1 by simp
  have st2: "vals_step attr1 v1 attr2 v2"
    using allocate_remaining_vals [OF vals_step_ok [OF st1], of raw1] 2 by simp
  have st: "vals_step [] v attr2 v2" using st1 st2 by (rule vals_step_trans)
  let ?n = "next_id v2"
  let ?m = "\<lparr>mesh_id = Suc ?n, geometry = ?n, mesh_material = mat\<rparr>"
  let ?v' = "snd (buildOrUpdateMesh raw mat v)"
  have r: "?v' = v2\<lparr>geom_attributes := (geom_attributes v2)(?n := attr2),
                    next_id := Suc (Suc ?n), currMesh := Some ?m,
                    meshes := meshes v2 @ [Suc ?n]\<rparr>"
    unfolding buildOrUpdateMesh_def by (simp add: cm 1 2 Let_def group_add_def)
  have n: "next_id v \<le> ?n" using st by (simp add: vals_step_def)
  have fr: "geom_attributes ?v' = (geom_attributes v)(?n := attr2)" "next_id ?v' = Suc (Suc ?n)"
    "currMesh ?v' = Some ?m" "meshes ?v' = meshes v @ [Suc ?n]" "ghostMeshes ?v' = ghostMeshes v"
    "vectorFieldMesh ?v' = vectorFieldMesh v" "wireframeMesh ?v' = wireframeMesh v"
    "pointsMesh ?v' = pointsMesh v" "bufferAttributeStash ?v' = bufferAttributeStash v2"
    unfolding r using f2 by simp_all
  show ?thesis
  proof (rule scene_okI)
    show "viewer_inv ?v'" using inv by (rule build_inv)
    have geo: "\<forall>x\<in>set (?G @ ?V). geometry x < next_id v" using o by (simp add: owns_def)
    have keep: "\<forall>x\<in>set (?G @ ?V). buffers_of ?v' x = buffers_of v x"
    proof
      fix x assume "x \<in> set (?G @ ?V)"
      then have "geometry x < next_id v" using geo by blast
      then have "geometry x \<noteq> ?n" using n by simp
      then show "buffers_of ?v' x = buffers_of v x" by (simp add: buffers_of_def fr(1))
    qed
    have bm: "concat (map (buffers_of ?v') [?m]) = map snd attr2"
      by (simp add: buffers_of_def fr(1))
    have "owns ?v' (?G @ [?m] @ ?V)"
    proof (rule owns_rebuild [OF o keep])
      show "next_id v \<le> next_id ?v'" using n by (simp add: fr(2))
      show "map_option mesh_id (wireframeMesh ?v') = map_option mesh_id (wireframeMesh v)"
        "map_option mesh_id (pointsMesh ?v') = map_option mesh_id (pointsMesh v)"
        by (simp_all add: fr)
      show "distinct (concat (map (buffers_of ?v') [?m]) @ map snd (bufferAttributeStash ?v'))"
        unfolding bm fr(9) using st by (simp add: vals_step_def vals_ok_def)
      show "\<forall>b\<in>set (concat (map (buffers_of ?v') [?m]) @ map snd (bufferAttributeStash ?v')).
              b \<in> set (concat (map (buffers_of v) []) @ map snd (bufferAttributeStash v)) \<or> next_id v \<le> b"
        unfolding bm fr(9) using st by (simp add: vals_step_def)
      have "\<forall>b\<in>set (map snd attr2 @ map snd (bufferAttributeStash v2)). b < ?n"
        using st by (simp add: vals_step_def vals_ok_def)
      then show "\<forall>b\<in>set (concat (map (buffers_of ?v') [?m]) @ map snd (bufferAttributeStash ?v')).
              b < next_id ?v'"
        unfolding bm fr(9) fr(2) by (meson less_Suc_eq)
      show "distinct (map mesh_id [?m])" "distinct (map geometry [?m])" by simp_all
      have "\<not> is_mesh ?m (wireframeMesh v) \<and> \<not> is_mesh ?m (pointsMesh v)"
        by (rule not_overlay [OF gw]) (use n in simp)
      then show "\<forall>c\<in>set [?m]. (mesh_id c \<in> set (map mesh_id []) \<or> next_id v \<le> mesh_id c) \<and>
            mesh_id c < next_id ?v' \<and>
            (geometry c \<in> set (map geometry []) \<or> next_id v \<le> geometry c) \<and>
            geometry c < next_id ?v' \<and>
            \<not> is_mesh c (wireframeMesh v) \<and> \<not> is_mesh c (pointsMesh v)"
        using n by (simp add: fr(2))
    qed
    moreover have "owned ?v' = ?G @ [?m] @ ?V" by (simp add: owned_def fr)
    ultimately show "owns ?v' (owned ?v')" by simp
    have gl: "\<forall>g\<in>set (ghostMeshes v). mesh_id g < next_id v" using o by (simp add: owns_def)
    have fresh: "Suc ?n \<notin> set (meshes v)"
    proof
      assume "Suc ?n \<in> set (meshes v)"
      then have "Suc ?n < next_id v" using g(2) by blast
      then show False using n by simp
    qed
    have lim: "\<forall>i\<in>set (meshes v). i < Suc (Suc ?n)"
      using g(2) n by (meson le_imp_less_Suc less_SucI less_imp_le_nat order_trans)
    have limw: "\<forall>w\<in>set (option_list (wireframeMesh v) @ option_list (pointsMesh v)). mesh_id w < Suc (Suc ?n)"
      using gw n by (meson le_imp_less_Suc less_SucI less_imp_le_nat order_trans)
    have gh: "\<forall>g\<in>set (ghostMeshes v). mesh_id g \<noteq> Suc ?n"
    proof
      fix x assume "x \<in> set (ghostMeshes v)"
      then have "mesh_id x < next_id v" using gl by blast
      then show "mesh_id x \<noteq> Suc ?n" using n by simp
    qed
    show "groups_ok ?v'"
      unfolding groups_ok_def fr using g(1,3) fresh lim limw gh by simp
  qed
qed

lemma vals_ok_buffers [simp]: "vals_ok attr (v\<lparr>buffer_array := B\<rparr>) = vals_ok attr v"
  by (simp add: vals_ok_def)

lemma book_buffers [simp]: "book (v\<lparr>buffer_array := B\<rparr>) attr = book v attr"
  by (simp add: book_def)

lemma build_update_scene:
  assumes ok: "scene_ok v" and cm: "currMesh v = Some cm"
  shows "scene_ok (snd (buildOrUpdateMesh raw mat v))"
proof -
  let ?G = "ghostMeshes v" and ?V = "option_list (vectorFieldMesh v)"
  let ?attr = "geom_attributes v (geometry cm)"
  have inv: "viewer_inv v" and o: "owns v (?G @ [cm] @ ?V)"
    using ok cm by (simp_all add: scene_ok_def owned_def)
  have gr: "groups_ok v" using ok by (simp add: scene_ok_def)
  obtain B1 where p1: "snd (assign_array raw ''position'' ?attr v) = v\<lparr>buffer_array := B1\<rparr>"
    using assign_array_result by blast
  let ?v1 = "v\<lparr>buffer_array := B1\<rparr>"
  obtain B2 where p2: "snd (assign_array raw ''normal'' ?attr ?v1) = ?v1\<lparr>buffer_array := B2\<rparr>"
    using assign_array_result by blast
  let ?v2 = "v\<lparr>buffer_array := B2\<rparr>"
  have p2': "snd (assign_array raw ''normal'' ?attr ?v1) = ?v2" using p2 by simp
  obtain e1 where a1: "assign_array raw ''position'' ?attr v = (e1, ?v1)"
    using p1 by (cases "assign_array raw ''position'' ?attr v") simp
  obtain e2 where a2: "assign_array raw ''normal'' ?attr ?v1 = (e2, ?v2)"
    using p2' by (cases "assign_array raw ''normal'' ?attr ?v1") simp
  have e: "excl_b (book ?v2 ?attr)"
    using inv cm by (simp add: viewer_inv_def stash_exclusive_excl currAttributes_def book_def)
  from update_stashable_book [OF subset_refl e, of raw] obtain v3 attr3 where
    u: "update_stashable stashableKeys raw ?v2 ?attr = (None, v3, attr3)"
    and s3: "same_scene ?v2 v3"
    by blast
  note f3 = same_scene_fields [OF s3]
  have ok2: "vals_ok ?attr ?v2"
    using owns_mid_vals [OF o] by (simp add: vals_ok_def buffers_of_def)
  have st: "vals_step ?attr ?v2 attr3 v3"
    using update_stashable_vals [OF subset_refl e ok2, of raw] u by simp
  let ?cm' = "cm\<lparr>mesh_material := mat\<rparr>"
  let ?v' = "v3\<lparr>geom_attributes := (geom_attributes v3)(geometry cm := attr3), currMesh := Some ?cm'\<rparr>"
  have n: "next_id v \<le> next_id v3" using st by (simp add: vals_step_def)
  have fr: "geom_attributes ?v' = (geom_attributes v)(geometry cm := attr3)" "next_id ?v' = next_id v3"
    "currMesh ?v' = Some ?cm'" "meshes ?v' = meshes v" "ghostMeshes ?v' = ghostMeshes v"
    "vectorFieldMesh ?v' = vectorFieldMesh v" "wireframeMesh ?v' = wireframeMesh v"
    "pointsMesh ?v' = pointsMesh v" "bufferAttributeStash ?v' = bufferAttributeStash v3"
    using f3 by simp_all
  have final: "scene_ok ?v'"
  proof (rule scene_okI)
    have "viewer_inv (snd (buildOrUpdateMesh raw mat v))" using inv by (rule build_inv)
    moreover have "e1 = None \<Longrightarrow> e2 = None \<Longrightarrow> snd (buildOrUpdateMesh raw mat v) = ?v'"
      using cm a1 a2 u by (simp add: buildOrUpdateMesh_def and_then_def)
    ultimately have "e1 = None \<Longrightarrow> e2 = None \<Longrightarrow> viewer_inv ?v'" by simp
    moreover have "viewer_inv ?v'" if "e1 \<noteq> None \<or> e2 \<noteq> None"
    proof -
      have e3: "excl_b (book v3 attr3)"
        using update_stashable_book [OF subset_refl e, of raw] u fold_aus_excl [OF e] by auto
      have "geometry cm < next_id v" using inv cm by (simp add: viewer_inv_def ids_fresh_def)
      then show ?thesis
        using e3 n by (simp add: viewer_inv_def stash_exclusive_excl ids_fresh_def currAttributes_def book_def)
    qed
    ultimately show "viewer_inv ?v'" by blast
    have dg: "distinct (map geometry (?G @ [cm] @ ?V))" using o by (simp add: owns_def)
    have keep: "\<forall>x\<in>set (?G @ ?V). buffers_of ?v' x = buffers_of v x"
    proof
      fix x assume x: "x \<in> set (?G @ ?V)"
      have "geometry cm \<notin> geometry ` set (?G @ ?V)" using dg by auto
      then have "geometry x \<noteq> geometry cm" using x by (metis imageI)
      then show "buffers_of ?v' x = buffers_of v x" by (simp add: buffers_of_def f3(2))
    qed
    have bm: "concat (map (buffers_of ?v') [?cm']) = map snd attr3"
      by (simp add: buffers_of_def)
    have bo: "concat (map (buffers_of v) [cm]) = map snd ?attr"
      by (simp add: buffers_of_def)
    have o4: "mesh_id cm < next_id v \<and> geometry cm < next_id v \<and>
              \<not> is_mesh cm (wireframeMesh v) \<and> \<not> is_mesh cm (pointsMesh v)"
      using o by (simp add: owns_def)
    have "owns ?v' (?G @ [?cm'] @ ?V)"
    proof (rule owns_rebuild [OF o keep])
      show "next_id v \<le> next_id ?v'" using n by simp
      show "map_option mesh_id (wireframeMesh ?v') = map_option mesh_id (wireframeMesh v)"
        "map_option mesh_id (pointsMesh ?v') = map_option mesh_id (pointsMesh v)"
        by (simp_all add: f3)
      show "distinct (concat (map (buffers_of ?v') [?cm']) @ map snd (bufferAttributeStash ?v'))"
        unfolding bm fr(9) using st by (simp add: vals_step_def vals_ok_def)
      show "\<forall>b\<in>set (concat (map (buffers_of ?v') [?cm']) @ map snd (bufferAttributeStash ?v')).
              b \<in> set (concat (map (buffers_of v) [cm]) @ map snd (bufferAttributeStash v)) \<or> next_id v \<le> b"
        unfolding bm bo fr(9) using st by (simp add: vals_step_def)
      show "\<forall>b\<in>set (concat (map (buffers_of ?v') [?cm']) @ map snd (bufferAttributeStash ?v')).
              b < next_id ?v'"
        unfolding bm fr(9) fr(2) using st by (simp add: vals_step_def vals_ok_def)
      show "distinct (map mesh_id [?cm'])" "distinct (map geometry [?cm'])" by simp_all
      show "\<forall>c\<in>set [?cm']. (mesh_id c \<in> set (map mesh_id [cm]) \<or> next_id v \<le> mesh_id c) \<and>
            mesh_id c < next_id ?v' \<and>
            (geometry c \<in> set (map geometry [cm]) \<or> next_id v \<le> geometry c) \<and>
            geometry c < next_id ?v' \<and>
            \<not> is_mesh c (wireframeMesh v) \<and> \<not> is_mesh c (pointsMesh v)"
        using o4 n by simp
    qed
    moreover have "owned ?v' = ?G @ [?cm'] @ ?V" by (simp add: owned_def f3)
    ultimately show "owns ?v' (owned ?v')" by simp
    have lim: "\<forall>i\<in>set (meshes v). i < next_id v3"
      using gr n by (auto simp: groups_ok_def)
    have limw: "\<forall>w\<in>set (option_list (wireframeMesh v) @ option_list (pointsMesh v)). mesh_id w < next_id v3"
      using gr n unfolding groups_ok_def by (meson less_le_trans)
    show "groups_ok ?v'"
      unfolding groups_ok_def fr using gr cm lim limw by (simp add: groups_ok_def)
  qed
  show ?thesis
  proof (cases e1)
    case (Some x)
    then have "snd (buildOrUpdateMesh raw mat v) = ?v1"
      using cm a1 by (simp add: buildOrUpdateMesh_def and_then_def)
    then show ?thesis using ok by simp
  next
    case None
    show ?thesis
    proof (cases e2)
      case (Some x)
      then have "snd (buildOrUpdateMesh raw mat v) = ?v2"
        using cm a1 a2 None by (simp add: buildOrUpdateMesh_def and_then_def)
      then show ?thesis using ok by simp
    next
      case N2: None
      have "snd (buildOrUpdateMesh raw mat v) = ?v'"
        using cm a1 a2 u None N2 by (simp add: buildOrUpdateMesh_def and_then_def)
      then show ?thesis using final by simp
    qed
  qed
qed

lemma build_scene: "scene_ok v \<Longrightarrow> scene_ok (snd (buildOrUpdateMesh raw mat v))"
  by (cases "currMesh v") (simp_all add: build_new_scene build_update_scene)

subsection \<open>setGeometry keeps the scene well formed\<close>

lemma setGeometry_scene:
  assumes "scene_ok v"
  shows "scene_ok (snd (setGeometry v a))"
  unfolding setGeometry_def
proof (rule and_then_snd [where P=scene_ok])
  show "scene_ok (snd (modelMatrixStep a (v\<lparr>scalarField := scalarField_arg a, vectorField := vectorField_arg a\<rparr>)))"
    using assms by (simp add: modelMatrixStep_def)
next
  fix v1 assume v1: "scene_ok v1"
  show "scene_ok (snd (case rawAttributes a of
         Inl e \<Rightarrow> (Some e, v1)
       | Inr (attrRaw, useVertexColors) \<Rightarrow>
           and_then (ghostOrClean a v1) (\<lambda>v2.
             case material (materialLibrary v2) useVertexColors (map_option dataTex (textureMap a)) of
               (mat, lib) \<Rightarrow>
                 (let v3 = v2\<lparr>materialLibrary := lib\<rparr>;
                      v4 = (if avoidRedrawFlicker v3 then v3\<lparr>renderingPaused := True\<rparr> else v3)
                  in and_then (buildOrUpdateMesh attrRaw mat v4) (\<lambda>v5.
                     and_then (vectorFieldStep a (repointOverlays v5)) (\<lambda>v6.
                       (None, if avoidRedrawFlicker v6 then v6\<lparr>renderingPaused := False\<rparr> else v6)))))))"
  proof (cases "rawAttributes a")
    case (Inl e)
    then show ?thesis using v1 by simp
  next
    case (Inr p)
    obtain attrRaw useVertexColors where p: "p = (attrRaw, useVertexColors)" by (cases p)
    have "scene_ok (snd (and_then (ghostOrClean a v1) (\<lambda>v2.
             case material (materialLibrary v2) useVertexColors (map_option dataTex (textureMap a)) of
               (mat, lib) \<Rightarrow>
                 (let v3 = v2\<lparr>materialLibrary := lib\<rparr>;
                      v4 = (if avoidRedrawFlicker v3 then v3\<lparr>renderingPaused := True\<rparr> else v3)
                  in and_then (buildOrUpdateMesh attrRaw mat v4) (\<lambda>v5.
                     and_then (vectorFieldStep a (repointOverlays v5)) (\<lambda>v6.
                       (None, if avoidRedrawFlicker v6 then v6\<lparr>renderingPaused := False\<rparr> else v6)))))))"
    proof (rule and_then_snd [where P=scene_ok])
      show "scene_ok (snd (ghostOrClean a v1))" using v1 by (rule ghostOrClean_scene)
    next
      fix v2 assume v2: "scene_ok v2"
      obtain mat lib where m: "material (materialLibrary v2) useVertexColors (map_option dataTex (textureMap a)) = (mat, lib)"
        by (cases "material (materialLibrary v2) useVertexColors (map_option dataTex (textureMap a))")
      let ?v4 = "if avoidRedrawFlicker (v2\<lparr>materialLibrary := lib\<rparr>)
                 then v2\<lparr>materialLibrary := lib, renderingPaused := True\<rparr> else v2\<lparr>materialLibrary := lib\<rparr>"
      have v4: "scene_ok ?v4" using v2 by simp
      have "scene_ok (snd (and_then (buildOrUpdateMesh attrRaw mat ?v4) (\<lambda>v5.
                     and_then (vectorFieldStep a (repointOverlays v5)) (\<lambda>v6.
                       (None, if avoidRedrawFlicker v6 then v6\<lparr>renderingPaused := False\<rparr> else v6)))))"
      proof (rule and_then_snd [where P=scene_ok])
        show "scene_ok (snd (buildOrUpdateMesh attrRaw mat ?v4))" using v4 by (rule build_scene)
      next
        fix v5 assume v5: "scene_ok v5"
        show "scene_ok (snd (and_then (vectorFieldStep a (repointOverlays v5)) (\<lambda>v6.
                       (None, if avoidRedrawFlicker v6 then v6\<lparr>renderingPaused := False\<rparr> else v6))))"
        proof (rule and_then_snd [where P=scene_ok])
          show "scene_ok (snd (vectorFieldStep a (repointOverlays v5)))"
            using v5 by (simp add: vectorFieldStep_scene repointOverlays_scene)
        next
          fix v6 assume "scene_ok v6"
          then show "scene_ok (snd (None, if avoidRedrawFlicker v6 then v6\<lparr>renderingPaused := False\<rparr> else v6))"
            by simp
        qed
      qed
      then show "scene_ok (snd (case material (materialLibrary v2) useVertexColors (map_option dataTex (textureMap a)) of
               (mat, lib) \<Rightarrow>
                 (let v3 = v2\<lparr>materialLibrary := lib\<rparr>;
                      v4 = (if avoidRedrawFlicker v3 then v3\<lparr>renderingPaused := True\<rparr> else v3)
                  in and_then (buildOrUpdateMesh attrRaw mat v4) (\<lambda>v5.
                     and_then (vectorFieldStep a (repointOverlays v5)) (\<lambda>v6.
                       (None, if avoidRedrawFlicker v6 then v6\<lparr>renderingPaused := False\<rparr> else v6))))))"
        by (simp add: m Let_def)
    qed
    then show ?thesis using Inr p by simp
  qed
qed


lemma setGeometry_calls_scene: "scene_ok v \<Longrightarrow> scene_ok (setGeometry_calls v as)"
  by (induction as arbitrary: v) (simp_all add: setGeometry_scene)

lemma ViewerBase_init_scene: "scene_ok (snd (ViewerBase_init lineMesh a))"
  unfolding ViewerBase_init_def by (rule setGeometry_scene) (rule scene_ok_fields)

section \<open>Ghosts and their disposal\<close>

lemma count_map_inj:
  "inj f \<Longrightarrow> count_list (map f xs) (f x) = count_list xs x"
  by (induction xs) (auto dest: injD)

lemma events_counts:
  assumes "\<forall>g\<in>set gs. \<not> is_mesh g (wireframeMesh v) \<and> \<not> is_mesh g (pointsMesh v)"
  shows "count_list (concat (map (ghost_events v) gs)) (Close_mesh i) = count_list (map mesh_id gs) i"
    and "count_list (concat (map (ghost_events v) gs)) (Dispose_geometry i) = count_list (map geometry gs) i"
    and "count_list (concat (map (ghost_events v) gs)) (Close_geometry i) = count_list (map geometry gs) i"
    and "count_list (concat (map (ghost_events v) gs)) (Close_attribute i)
           = count_list (concat (map (buffers_of v) gs)) i"
proof -
  have inj: "inj Close_attribute" by (simp add: inj_def)
  have z: "count_list (map Close_attribute xs) (Close_mesh i) = 0"
          "count_list (map Close_attribute xs) (Dispose_geometry i) = 0"
          "count_list (map Close_attribute xs) (Close_geometry i) = 0" for xs
    by (simp_all add: count_list_0_iff image_iff)
  show "count_list (concat (map (ghost_events v) gs)) (Close_mesh i) = count_list (map mesh_id gs) i"
    using assms by (induction gs) (simp_all add: ghost_events_def z)
  show "count_list (concat (map (ghost_events v) gs)) (Dispose_geometry i) = count_list (map geometry gs) i"
    using assms by (induction gs) (simp_all add: ghost_events_def z)
  show "count_list (concat (map (ghost_events v) gs)) (Close_geometry i) = count_list (map geometry gs) i"
    using assms by (induction gs) (simp_all add: ghost_events_def z)
  show "count_list (concat (map (ghost_events v) gs)) (Close_attribute i)
           = count_list (concat (map (buffers_of v) gs)) i"
    using assms by (induction gs) (simp_all add: ghost_events_def count_map_inj [OF inj])
qed

lemma count_distinct: "distinct xs \<Longrightarrow> count_list xs x = (if x \<in> set xs then 1 else 0)"
  by (induction xs) auto

lemma ghostVectorField_ghosts:
  "take (length (ghostMeshes v)) (ghostMeshes (snd (ghostVectorField m v))) = ghostMeshes v"
  by (simp add: ghostVectorField_def Let_def ghost_add_def split: option.splits sum.splits)

lemma ghost_branch:
  assumes ok: "scene_ok v" and p: "preserveExisting a" and cm: "currMesh v = Some cm"
  shows "take (Suc (length (ghostMeshes v))) (ghostMeshes (snd (ghostOrClean a v)))
           = ghostMeshes v @ [cm\<lparr>mesh_material := fst (ghostMaterial (materialLibrary v) (mesh_material cm))\<rparr>]"
    and "closeLog (snd (ghostOrClean a v)) = closeLog v"
proof -
  obtain gm lib where gmat: "ghostMaterial (materialLibrary v) (mesh_material cm) = (gm, lib)"
    by (cases "ghostMaterial (materialLibrary v) (mesh_material cm)")
  have inm: "mesh_id cm \<in> set (meshes v)"
    using ok cm by (simp add: scene_ok_def groups_ok_def)
  let ?v1 = "v\<lparr>currMesh := None, materialLibrary := lib,
               meshes := remove1 (mesh_id cm) (meshes v),
               ghostMeshes := ghostMeshes v @ [cm\<lparr>mesh_material := gm\<rparr>]\<rparr>"
  have step: "ghostOrClean a v =
                (case vectorFieldMesh v of
                   Some oldVFMesh \<Rightarrow>
                     (if mesh_id oldVFMesh \<in> set (remove1 (mesh_id cm) (meshes v))
                      then ghostVectorField oldVFMesh ?v1
                      else (None, ?v1))
                 | None \<Rightarrow> (None, ?v1))"
    unfolding ghostOrClean_def
    by (simp add: p cm gmat Let_def group_remove_def ghost_add_def inm cong: option.case_cong if_cong)
  have l: "length (ghostMeshes ?v1) = Suc (length (ghostMeshes v))" by simp
  have g1: "take (Suc (length (ghostMeshes v))) (ghostMeshes (snd (ghostVectorField m ?v1)))
              = ghostMeshes v @ [cm\<lparr>mesh_material := gm\<rparr>]" for m
    using ghostVectorField_ghosts [of ?v1 m] unfolding l by simp
  show "take (Suc (length (ghostMeshes v))) (ghostMeshes (snd (ghostOrClean a v)))
           = ghostMeshes v @ [cm\<lparr>mesh_material := fst (ghostMaterial (materialLibrary v) (mesh_material cm))\<rparr>]"
    unfolding step gmat using g1 by (simp split: option.splits)
  show "closeLog (snd (ghostOrClean a v)) = closeLog v"
    unfolding step by (simp split: option.splits)
qed

lemma AUS_same_scene:
  "same_scene v (fst (snd (allocateUpdateOrStashBufferAttribute raw key v attr)))"
proof (cases "map_of attr key = None \<or> map_of (bufferAttributeStash v) key = None")
  case True
  from AUS_step [OF True, of raw] show ?thesis by auto
next
  case False
  then show ?thesis by (simp add: allocateUpdateOrStashBufferAttribute_def same_scene_refl)
qed

lemma update_stashable_same_scene:
  "same_scene v (fst (snd (update_stashable ks raw v attr)))"
proof (induction ks arbitrary: v attr)
  case Nil
  show ?case by (simp add: same_scene_refl)
next
  case (Cons key ks)
  obtain e v1 attr1 where a: "allocateUpdateOrStashBufferAttribute raw key v attr = (e, v1, attr1)"
    by (cases "allocateUpdateOrStashBufferAttribute raw key v attr")
  have s1: "same_scene v v1" using AUS_same_scene [of v raw key attr] a by simp
  show ?case
  proof (cases e)
    case None
    then show ?thesis using a same_scene_trans [OF s1 Cons.IH [of v1 attr1]] by simp
  next
    case (Some err)
    then show ?thesis using a s1 by simp
  qed
qed

lemma build_frame:
  "ghostMeshes (snd (buildOrUpdateMesh raw mat v)) = ghostMeshes v"
  "closeLog (snd (buildOrUpdateMesh raw mat v)) = closeLog v"
  "map_option mesh_id (wireframeMesh (snd (buildOrUpdateMesh raw mat v))) = map_option mesh_id (wireframeMesh v)"
  "map_option mesh_id (pointsMesh (snd (buildOrUpdateMesh raw mat v))) = map_option mesh_id (pointsMesh v)"
proof -
  have "ghostMeshes (snd (buildOrUpdateMesh raw mat v)) = ghostMeshes v \<and>
        closeLog (snd (buildOrUpdateMesh raw mat v)) = closeLog v \<and>
        wireframeMesh (snd (buildOrUpdateMesh raw mat v)) = wireframeMesh v \<and>
        pointsMesh (snd (buildOrUpdateMesh raw mat v)) = pointsMesh v"
  proof (cases "currMesh v")
    case None
    from build_new_shape [OF None, of raw mat] obtain v1 v2 attr2 where
      r: "buildOrUpdateMesh raw mat v =
             (None, v2\<lparr>geom_attributes := (geom_attributes v2)(next_id v2 := attr2),
                       next_id := Suc (Suc (next_id v2)),
                       currMesh := Some \<lparr>mesh_id = Suc (next_id v2), geometry = next_id v2, mesh_material = mat\<rparr>,
                       meshes := group_add (Suc (next_id v2)) (meshes v2)\<rparr>)"
      and s: "same_scene v v1" "same_scene v1 v2"
      by blast
    note f = same_scene_fields [OF same_scene_trans [OF s]]
    show ?thesis unfolding r using f by simp
  next
    case (Some cm)
    let ?attr = "geom_attributes v (geometry cm)"
    obtain B1 where p1: "snd (assign_array raw ''position'' ?attr v) = v\<lparr>buffer_array := B1\<rparr>"
      using assign_array_result by blast
    let ?v1 = "v\<lparr>buffer_array := B1\<rparr>"
    obtain B2 where p2: "snd (assign_array raw ''normal'' ?attr ?v1) = ?v1\<lparr>buffer_array := B2\<rparr>"
      using assign_array_result by blast
    let ?v2 = "v\<lparr>buffer_array := B2\<rparr>"
    have p2': "snd (assign_array raw ''normal'' ?attr ?v1) = ?v2" using p2 by simp
    obtain e3 v3 attr3 where u: "update_stashable stashableKeys raw ?v2 ?attr = (e3, v3, attr3)"
      by (cases "update_stashable stashableKeys raw ?v2 ?attr")
    have s3: "same_scene ?v2 v3" using update_stashable_same_scene [of ?v2 stashableKeys raw ?attr] u by simp
    note f3 = same_scene_fields [OF s3]
    obtain e1 where a1: "assign_array raw ''position'' ?attr v = (e1, ?v1)"
      using p1 by (cases "assign_array raw ''position'' ?attr v") simp
    obtain e2 where a2: "assign_array raw ''normal'' ?attr ?v1 = (e2, ?v2)"
      using p2' by (cases "assign_array raw ''normal'' ?attr ?v1") simp
    show ?thesis
      using Some a1 a2 u f3
      by (cases e1; cases e2; cases e3) (simp_all add: buildOrUpdateMesh_def and_then_def)
  qed
  then show "ghostMeshes (snd (buildOrUpdateMesh raw mat v)) = ghostMeshes v"
    "closeLog (snd (buildOrUpdateMesh raw mat v)) = closeLog v"
    "map_option mesh_id (wireframeMesh (snd (buildOrUpdateMesh raw mat v))) = map_option mesh_id (wireframeMesh v)"
    "map_option mesh_id (pointsMesh (snd (buildOrUpdateMesh raw mat v))) = map_option mesh_id (pointsMesh v)"
    by simp_all
qed


lemma modelMatrixStep_scene: "scene_ok (snd (modelMatrixStep a (frame_start v a))) = scene_ok v"
  by (simp add: modelMatrixStep_def frame_start_def)

lemma modelMatrixStep_library [simp]:
  "materialLibrary (snd (modelMatrixStep a (frame_start v a))) = materialLibrary v"
  "ghostMeshes (snd (modelMatrixStep a (frame_start v a))) = ghostMeshes v"
  "closeLog (snd (modelMatrixStep a (frame_start v a))) = closeLog v"
  by (simp_all add: modelMatrixStep_def frame_start_def)

lemma preserving_call:
  assumes sc: "scene_ok v" and cm: "currMesh v = Some cm"
    and p: "preserveExisting a" and ok: "setGeometry v a = (None, v1)"
  shows "take (Suc (length (ghostMeshes v))) (ghostMeshes v1)
           = ghostMeshes v @ [cm\<lparr>mesh_material := fst (ghostMaterial (materialLibrary v) (mesh_material cm))\<rparr>]"
    and "closeLog v1 = closeLog v"
proof -
  have "take (Suc (length (ghostMeshes v))) (ghostMeshes v1)
           = ghostMeshes v @ [cm\<lparr>mesh_material := fst (ghostMaterial (materialLibrary v) (mesh_material cm))\<rparr>] \<and>
        closeLog v1 = closeLog v"
  proof (cases rule: setGeometry_cases [of a v])
    case (mm_fail e va)
    then show ?thesis using ok by simp
  next
    case (raw_fail e va)
    then show ?thesis using ok by simp
  next
    case (ghost_fail e va vb raw vc)
    then show ?thesis using ok by simp
  next
    case (build_fail e va vb raw vc mat lib v5)
    then show ?thesis using ok by simp
  next
    case (vf_fail e va vb raw vc mat lib v5 v6)
    then show ?thesis using ok by simp
  next
    case (ok va vb raw vc mat lib v5 v6)
    have va: "va = snd (modelMatrixStep a (frame_start v a))" using ok(1) by simp
    have sa: "scene_ok va" unfolding va using sc by (simp add: modelMatrixStep_scene)
    have ca: "currMesh va = Some cm" unfolding va using cm by simp
    have vb: "vb = snd (ghostOrClean a va)" using ok(3) by simp
    have gb: "take (Suc (length (ghostMeshes v))) (ghostMeshes vb)
           = ghostMeshes v @ [cm\<lparr>mesh_material := fst (ghostMaterial (materialLibrary v) (mesh_material cm))\<rparr>]"
      and lb: "closeLog vb = closeLog v"
      unfolding vb using ghost_branch [OF sa p ca] unfolding va by simp_all
    let ?v4 = "pause (vb\<lparr>materialLibrary := lib\<rparr>)"
    have f4: "ghostMeshes ?v4 = ghostMeshes vb" "closeLog ?v4 = closeLog vb"
      by (simp_all add: pause_def)
    have v5: "v5 = snd (buildOrUpdateMesh raw mat ?v4)" using ok(5) by simp
    have f5: "ghostMeshes v5 = ghostMeshes vb" "closeLog v5 = closeLog vb"
      unfolding v5 using build_frame(1,2) [of raw mat ?v4] f4 by simp_all
    have v6: "v6 = snd (vectorFieldStep a (repointOverlays v5))" using ok(6) by simp
    have v1: "v1 = resume v6" using ok(7) \<open>setGeometry v a = (None, v1)\<close> by simp
    have "ghostMeshes v1 = ghostMeshes vb" "closeLog v1 = closeLog vb"
      unfolding v1 v6 using f5 by simp_all
    then show ?thesis using gb lb by simp
  qed
  then show "take (Suc (length (ghostMeshes v))) (ghostMeshes v1)
           = ghostMeshes v @ [cm\<lparr>mesh_material := fst (ghostMaterial (materialLibrary v) (mesh_material cm))\<rparr>]"
    and "closeLog v1 = closeLog v"
    by simp_all
qed

lemma cleaning_call:
  assumes np: "\<not> preserveExisting a" and ok: "setGeometry v a = (None, v2)"
  shows "ghostMeshes v2 = []"
    and "closeLog v2 = closeLog v @ concat (map (ghost_events v) (ghostMeshes v))"
proof -
  have "ghostMeshes v2 = [] \<and> closeLog v2 = closeLog v @ concat (map (ghost_events v) (ghostMeshes v))"
  proof (cases rule: setGeometry_cases [of a v])
    case (mm_fail e va)
    then show ?thesis using ok by simp
  next
    case (raw_fail e va)
    then show ?thesis using ok by simp
  next
    case (ghost_fail e va vb raw vc)
    then show ?thesis using ok by simp
  next
    case (build_fail e va vb raw vc mat lib v5)
    then show ?thesis using ok by simp
  next
    case (vf_fail e va vb raw vc mat lib v5 v6)
    then show ?thesis using ok by simp
  next
    case (ok va vb raw vc mat lib v5 v6)
    have va: "va = snd (modelMatrixStep a (frame_start v a))" using ok(1) by simp
    have ge: "ghost_events va = ghost_events v"
      unfolding va by (rule ghost_events_cong) simp_all
    have vb: "vb = snd (cleanMeshes va)" using ok(3) np by (simp add: ghostOrClean_def)
    have fb: "ghostMeshes vb = []"
      "closeLog vb = closeLog v @ concat (map (ghost_events v) (ghostMeshes v))"
      unfolding vb cleanMeshes_run using ge unfolding va by simp_all
    let ?v4 = "pause (vb\<lparr>materialLibrary := lib\<rparr>)"
    have f4: "ghostMeshes ?v4 = ghostMeshes vb" "closeLog ?v4 = closeLog vb"
      by (simp_all add: pause_def)
    have v5: "v5 = snd (buildOrUpdateMesh raw mat ?v4)" using ok(5) by simp
    have f5: "ghostMeshes v5 = ghostMeshes vb" "closeLog v5 = closeLog vb"
      unfolding v5 using build_frame(1,2) [of raw mat ?v4] f4 by simp_all
    have v6: "v6 = snd (vectorFieldStep a (repointOverlays v5))" using ok(6) by simp
    have v2: "v2 = resume v6" using ok(7) \<open>setGeometry v a = (None, v2)\<close> by simp
    show ?thesis unfolding v2 v6 using f5 fb by simp
  qed
  then show "ghostMeshes v2 = []"
    and "closeLog v2 = closeLog v @ concat (map (ghost_events v) (ghostMeshes v))"
    by simp_all
qed

lemma owns_ghosts:
  assumes "scene_ok v"
  shows "distinct (map mesh_id (ghostMeshes v))" "distinct (map geometry (ghostMeshes v))"
    "distinct (concat (map (buffers_of v) (ghostMeshes v)))"
    "\<forall>g\<in>set (ghostMeshes v). \<not> is_mesh g (wireframeMesh v) \<and> \<not> is_mesh g (pointsMesh v)"
proof -
  have "owns v (ghostMeshes v @ (option_list (currMesh v) @ option_list (vectorFieldMesh v)) @ [])"
    using assms by (simp add: scene_ok_def owned_def)
  then have "owns v (ghostMeshes v @ [])" by (rule owns_drop)
  then have o: "owns v (ghostMeshes v)" by simp
  show "distinct (map mesh_id (ghostMeshes v))" "distinct (map geometry (ghostMeshes v))"
    "distinct (concat (map (buffers_of v) (ghostMeshes v)))"
    "\<forall>g\<in>set (ghostMeshes v). \<not> is_mesh g (wireframeMesh v) \<and> \<not> is_mesh g (pointsMesh v)"
    using o by (simp_all add: owns_def)
qed

text \<open>
  C7. On a well-formed scene with a current mesh, an update with
  \<^verbatim>\<open>preserveExisting\<close> followed by an update without it, both returning
  normally. The first update takes the current mesh out of the live group and
  appends it, with the ghost material, to the ghost group, whose earlier
  members stay. The second update empties the ghost group, and the disposal
  calls it makes are exactly these: for each ghost, one \<^verbatim>\<open>close\<close> of the mesh,
  one \<^verbatim>\<open>dispose\<close> and one \<^verbatim>\<open>close\<close> of its geometry, and one \<^verbatim>\<open>close\<close> of each
  attribute buffer of the geometry.
\<close>

theorem C7_ghosts_disposed_once:
  assumes sc: "scene_ok v" and cm: "currMesh v = Some cm"
    and p1: "preserveExisting a1" and np2: "\<not> preserveExisting a2"
    and c1: "setGeometry v a1 = (None, v1)" and c2: "setGeometry v1 a2 = (None, v2)"
  shows "mesh_id cm \<in> set (meshes v) \<and> mesh_id cm \<notin> set (meshes v1) \<and>
         (\<exists>rest. ghostMeshes v1 =
            ghostMeshes v
            @ [cm\<lparr>mesh_material := fst (ghostMaterial (materialLibrary v) (mesh_material cm))\<rparr>]
            @ rest) \<and>
         ghostMeshes v2 = [] \<and>
         (\<exists>E. closeLog v2 = closeLog v @ E \<and>
            (\<forall>i. count_list E (Close_mesh i)
                   = (if i \<in> mesh_id ` set (ghostMeshes v1) then 1 else 0)) \<and>
            (\<forall>j. count_list E (Dispose_geometry j)
                   = (if j \<in> geometry ` set (ghostMeshes v1) then 1 else 0)) \<and>
            (\<forall>j. count_list E (Close_geometry j)
                   = (if j \<in> geometry ` set (ghostMeshes v1) then 1 else 0)) \<and>
            (\<forall>b. count_list E (Close_attribute b)
                   = (if b \<in> (\<Union>g\<in>set (ghostMeshes v1). set (buffers_of v1 g)) then 1 else 0)))"
proof -
  let ?gs = "ghostMeshes v1"
  let ?cm' = "cm\<lparr>mesh_material := fst (ghostMaterial (materialLibrary v) (mesh_material cm))\<rparr>"
  let ?E = "concat (map (ghost_events v1) ?gs)"
  have s1: "scene_ok v1" using setGeometry_scene [OF sc, of a1] c1 by simp
  have inm: "mesh_id cm \<in> set (meshes v)"
    using sc cm by (simp add: scene_ok_def groups_ok_def)
  from preserving_call [OF sc cm p1 c1]
  have tk: "take (Suc (length (ghostMeshes v))) ?gs = ghostMeshes v @ [?cm']"
    and l1: "closeLog v1 = closeLog v"
    by simp_all
  have "?gs = take (Suc (length (ghostMeshes v))) ?gs @ drop (Suc (length (ghostMeshes v))) ?gs"
    by simp
  then have app: "?gs = ghostMeshes v @ [?cm'] @ drop (Suc (length (ghostMeshes v))) ?gs"
    unfolding tk by simp
  then have ex: "\<exists>rest. ?gs = ghostMeshes v @ [?cm'] @ rest" by (rule exI)
  have "?cm' \<in> set ?gs" by (subst app) simp
  moreover have "\<forall>g\<in>set ?gs. mesh_id g \<notin> set (meshes v1)"
    using s1 by (simp add: scene_ok_def groups_ok_def)
  ultimately have "mesh_id ?cm' \<notin> set (meshes v1)" by blast
  then have out: "mesh_id cm \<notin> set (meshes v1)" by simp
  from cleaning_call [OF np2 c2] have e2: "ghostMeshes v2 = []" "closeLog v2 = closeLog v @ ?E"
    using l1 by simp_all
  note g = owns_ghosts [OF s1]
  have k1: "count_list ?E (Close_mesh i) = (if i \<in> mesh_id ` set ?gs then 1 else 0)" for i
    unfolding events_counts(1) [OF g(4)] using count_distinct [OF g(1), of i] by simp
  have k2: "count_list ?E (Dispose_geometry j) = (if j \<in> geometry ` set ?gs then 1 else 0)" for j
    unfolding events_counts(2) [OF g(4)] using count_distinct [OF g(2), of j] by simp
  have k3: "count_list ?E (Close_geometry j) = (if j \<in> geometry ` set ?gs then 1 else 0)" for j
    unfolding events_counts(3) [OF g(4)] using count_distinct [OF g(2), of j] by simp
  have k4: "count_list ?E (Close_attribute b)
              = (if b \<in> (\<Union>g\<in>set ?gs. set (buffers_of v1 g)) then 1 else 0)" for b
    unfolding events_counts(4) [OF g(4)] using count_distinct [OF g(3), of b] by simp
  have "\<exists>E. closeLog v2 = closeLog v @ E \<and>
            (\<forall>i. count_list E (Close_mesh i) = (if i \<in> mesh_id ` set ?gs then 1 else 0)) \<and>
            (\<forall>j. count_list E (Dispose_geometry j) = (if j \<in> geometry ` set ?gs then 1 else 0)) \<and>
            (\<forall>j. count_list E (Close_geometry j) = (if j \<in> geometry ` set ?gs then 1 else 0)) \<and>
            (\<forall>b. count_list E (Close_attribute b)
                   = (if b \<in> (\<Union>g\<in>set ?gs. set (buffers_of v1 g)) then 1 else 0))"
    using e2(2) k1 k2 k3 k4 by (intro exI [where x="?E"] conjI allI)
  then show ?thesis using inm out ex e2(1) by (intro conjI)
qed

lemma arrow_eval:
  "scene_ok arrow_viewer"
  "map_option mesh_id (currMesh arrow_viewer) = Some 4"
  "preserveExisting preserving_off" "\<not> preserveExisting tri_args"
  "fst (setGeometry arrow_viewer preserving_off) = None"
  "fst (setGeometry (snd (setGeometry arrow_viewer preserving_off)) tri_args) = None"
  "meshes arrow_viewer = [4, 7]"
  "meshes (snd (setGeometry arrow_viewer preserving_off)) = [13]"
  "map mesh_id (ghostMeshes (snd (setGeometry arrow_viewer preserving_off))) = [4, 7]"
  "closeLog arrow_viewer = []"
  "closeLog (snd (setGeometry (snd (setGeometry arrow_viewer preserving_off)) tri_args))
     = [Dispose_geometry 3, Close_attribute 0, Close_attribute 1, Close_attribute 2,
        Close_geometry 3, Close_mesh 4,
        Dispose_geometry 6, Close_attribute 5, Close_geometry 6, Close_mesh 7]"
  by code_simp+

text \<open>
  The viewer of a triangle with a vector field: the first update turns the
  current mesh 4 and the vector field mesh 7 into ghosts and builds the mesh
  13; the second update disposes of both ghosts.
\<close>

theorem C7_witness:
  "scene_ok arrow_viewer \<and> currMesh arrow_viewer \<noteq> None \<and>
   preserveExisting preserving_off \<and> \<not> preserveExisting tri_args \<and>
   fst (setGeometry arrow_viewer preserving_off) = None \<and>
   fst (setGeometry (snd (setGeometry arrow_viewer preserving_off)) tri_args) = None \<and>
   meshes arrow_viewer = [4, 7] \<and>
   meshes (snd (setGeometry arrow_viewer preserving_off)) = [13] \<and>
   map mesh_id (ghostMeshes (snd (setGeometry arrow_viewer preserving_off))) = [4, 7] \<and>
   ghostMeshes (snd (setGeometry (snd (setGeometry arrow_viewer preserving_off)) tri_args)) = [] \<and>
   closeLog (snd (setGeometry (snd (setGeometry arrow_viewer preserving_off)) tri_args))
     = [Dispose_geometry 3, Close_attribute 0, Close_attribute 1, Close_attribute 2,
        Close_geometry 3, Close_mesh 4,
        Dispose_geometry 6, Close_attribute 5, Close_geometry 6, Close_mesh 7]"
proof -
  obtain cm where cm: "currMesh arrow_viewer = Some cm"
    using arrow_eval(2) by (cases "currMesh arrow_viewer") auto
  let ?v1 = "snd (setGeometry arrow_viewer preserving_off)"
  let ?v2 = "snd (setGeometry ?v1 tri_args)"
  have c1: "setGeometry arrow_viewer preserving_off = (None, ?v1)"
    using arrow_eval(5) by (cases "setGeometry arrow_viewer preserving_off") simp
  have c2: "setGeometry ?v1 tri_args = (None, ?v2)"
    using arrow_eval(6) by (cases "setGeometry ?v1 tri_args") simp
  from C7_ghosts_disposed_once [OF arrow_eval(1) cm arrow_eval(3,4) c1 c2]
  have "ghostMeshes ?v2 = []" by blast
  then show ?thesis using arrow_eval cm by simp
qed

end
